theory Spec2Isabelle
  imports Main "HOL-Library.AList" "HOL-Library.Char_ord" "HOL-Library.List_Lexorder" "HOL-Library.Multiset"
begin

section \<open>Data model of makesnapshots.py\<close>

text \<open>
  The script keeps its tags in Python dictionaries. A dictionary is an association list
  whose keys are distinct and which keeps insertion order: \<open>map_of\<close> looks a key up and
  \<open>AList.update\<close> stores a value (in place when the key is present, at the end otherwise),
  which is the order \<^verbatim>\<open>dict.items()\<close> iterates in.
\<close>

type_synonym tags = "(string \<times> string) list"

text \<open>
  A boto \<^verbatim>\<open>Snapshot\<close> object of the source region. \<open>start_time\<close> is the provider's
  ISO-8601 timestamp string; the script sorts on it, so strings carry their lexicographic
  order.
\<close>

record snapshot =
  snap_id :: string
  volume_id :: string
  description :: string
  start_time :: string
  status :: string
  snap_tags :: tags

text \<open>A snapshot of the destination region, as \<^verbatim>\<open>describe_snapshots\<close> lists it.\<close>

record copy =
  copy_id :: string
  owned_by_self :: bool
  copy_tags :: tags

text \<open>
  The variable \<^verbatim>\<open>period\<close> of the script holds one of the strings \<^verbatim>\<open>day\<close>,
  \<^verbatim>\<open>week\<close>, \<^verbatim>\<open>month\<close> once the arguments have been checked.
\<close>

datatype period = Day | Week | Month

fun period_str :: "period \<Rightarrow> string" where
  "period_str Day = ''day''"
| "period_str Week = ''week''"
| "period_str Month = ''month''"

text \<open>The entries of \<^verbatim>\<open>config\<close> that the script reads (proxy settings and keys only
  select the constructor of the connection and are left out).\<close>

record config =
  log_file :: string
  iam_role_arn :: "string option"
  ec2_region_name :: string
  arn :: "string option"
  copy_region_name :: "string option"
  keep_day :: int
  keep_week :: int
  keep_month :: int
  config_tag_name :: string
  config_tag_value :: string

text \<open>Python's truth value of an entry that is \<^verbatim>\<open>None\<close> or a string.\<close>

fun truthy :: "string option \<Rightarrow> bool" where
  "truthy None = False"
| "truthy (Some s) = (s \<noteq> [])"

text \<open>The requests the script sends to the provider, with their arguments.\<close>

datatype call =
    AssumeRole string
  | GetAllVolumes string string
  | GetAllTags string
  | CreateSnapshot string string
  | AddTag string string string
  | UpdateSnapshot string
  | CopySnapshot string string string
  | CreateTags string tags
  | GetAllSnapshots string
  | DeleteSnapshot snapshot
  | DescribeSnapshots string
  | DeleteCopy string
  | SnsPublish string string string

datatype error =
    ProviderError call
  | NameError string
  | IndexError

text \<open>Everything the script does that can be observed from outside, in order.\<close>

datatype event =
    Print string
  | PrintError error
  | Traceback error
  | LogInfo string
  | LogError string
  | LogException error
  | Sleep nat
  | Call call

text \<open>
  The module-level variables of the script that survive from one volume to the next
  (\<open>current_snap = None\<close> and \<open>dest_conn = False\<close> stand for a name that is not bound
  yet), the two regions of the provider, the number of status refreshes so far and the
  trace of events.
\<close>

record state =
  message :: string
  errmsg :: string
  total_creates :: nat
  total_copies :: nat
  total_deletes :: nat
  count_errors :: nat
  count_success :: nat
  count_total :: nat
  current_snap :: "snapshot option"
  dest_conn :: bool
  src_region :: "snapshot list"
  dest_region :: "copy list"
  ticks :: nat
  trace :: "event list"

text \<open>
  What the script does not decide: which requests the provider rejects (depending on
  everything that happened before), the identifiers it hands out, the clock, the status
  a snapshot reports at each refresh, and the volumes of the account with their tags.
\<close>

record env =
  rejects :: "event list \<Rightarrow> call \<Rightarrow> bool"
  fresh_id :: "event list \<Rightarrow> string"
  strftime :: "string \<Rightarrow> event list \<Rightarrow> string"
  status_at :: "string \<Rightarrow> nat \<Rightarrow> string"
  volumes :: "string list"
  tags_of :: "string \<Rightarrow> tags"

text \<open>A statement either completes with a value or raises; the state is kept in both cases.\<close>

datatype 'a result = Return 'a state | Raised error state

fun state_of :: "'a result \<Rightarrow> state" where
  "state_of (Return x st) = st"
| "state_of (Raised e st) = st"

section \<open>Small helpers\<close>

definition startswith :: "string \<Rightarrow> string \<Rightarrow> bool" where
  "startswith s p = (take (length p) s = p)"

definition emit :: "event \<Rightarrow> state \<Rightarrow> state" where
  "emit e st = st\<lparr>trace := trace st @ [e]\<rparr>"

text \<open>A request to the provider: it is recorded, and the provider may reject it.\<close>

definition provider_call :: "env \<Rightarrow> call \<Rightarrow> state \<Rightarrow> unit result" where
  "provider_call env c st =
     (if rejects env (trace st) c then Raised (ProviderError c) (emit (Call c) st)
      else Return () (emit (Call c) st))"

text \<open>The three lines of every \<^verbatim>\<open>except Exception as e\<close> handler inside the volume loop.\<close>

definition log_exception :: "error \<Rightarrow> state \<Rightarrow> state" where
  "log_exception e st = emit (LogException e) (emit (Traceback e) (emit (PrintError e) st))"

definition digit_char :: "nat \<Rightarrow> char" where
  "digit_char d = char_of (48 + d)"

function str_nat :: "nat \<Rightarrow> string" where
  "str_nat n = (if n < 10 then [digit_char n] else str_nat (n div 10) @ [digit_char (n mod 10)])"
  by pat_completeness auto
termination
  by (relation "measure id") auto

text \<open>An approximation of Python's \<^verbatim>\<open>str\<close> of a dictionary of strings (no escapes).\<close>

definition repr_str :: "string \<Rightarrow> string" where
  "repr_str s = [CHR 0x27] @ s @ [CHR 0x27]"

fun str_items :: "tags \<Rightarrow> string" where
  "str_items [] = []"
| "str_items [(k, v)] = repr_str k @ '': '' @ repr_str v"
| "str_items ((k, v) # rest) = repr_str k @ '': '' @ repr_str v @ '', '' @ str_items rest"

definition str_tags :: "tags \<Rightarrow> string" where
  "str_tags t = ''{'' @ str_items t @ ''}''"

section \<open>Command line (lines 38-53)\<close>

text \<open>\<open>Inl\<close> is the message printed before \<^verbatim>\<open>quit()\<close>.\<close>

definition parse_argv :: "string list \<Rightarrow> string + period" where
  "parse_argv argv =
     (if length argv < 2 then Inl ''Please add a positional argument: day, week or month.''
      else if argv ! 1 = ''day'' then Inr Day
      else if argv ! 1 = ''week'' then Inr Week
      else if argv ! 1 = ''month'' then Inr Month
      else Inl ''Please use the parameter day, week or month'')"

section \<open>Tags (lines 143-162)\<close>

definition get_resource_tags :: "env \<Rightarrow> string \<Rightarrow> state \<Rightarrow> tags result" where
  "get_resource_tags env resource_id st =
     (if resource_id = [] then Return [] st
      else case provider_call env (GetAllTags resource_id) st of
             Raised e st1 \<Rightarrow> Raised e st1
           | Return u st1 \<Rightarrow>
               Return (fold (\<lambda>(name, val) resource_tags.
                               if \<not> startswith name ''aws:''
                               then AList.update name val resource_tags
                               else resource_tags)
                            (tags_of env resource_id) []) st1)"

text \<open>
  boto's \<^verbatim>\<open>add_tag\<close>: one tagging request, after which the tag is stored in the local
  object as well (and, in the model, on the provider's record of the snapshot).
\<close>

definition add_tag :: "env \<Rightarrow> snapshot \<Rightarrow> string \<Rightarrow> string \<Rightarrow> state \<Rightarrow> snapshot \<times> unit result" where
  "add_tag env resource tag_key tag_value st =
     (case provider_call env (AddTag (snap_id resource) tag_key tag_value) st of
        Raised e st1 \<Rightarrow> (resource, Raised e st1)
      | Return u st1 \<Rightarrow>
          (resource\<lparr>snap_tags := AList.update tag_key tag_value (snap_tags resource)\<rparr>,
           Return ()
             (st1\<lparr>src_region :=
                    map (\<lambda>s. if snap_id s = snap_id resource
                             then s\<lparr>snap_tags := AList.update tag_key tag_value (snap_tags s)\<rparr>
                             else s) (src_region st1)\<rparr>)))"

definition tag_message :: "string \<Rightarrow> string \<Rightarrow> string \<Rightarrow> string" where
  "tag_message rid tag_key tag_value =
     ''Tagging '' @ rid @ '' with ['' @ tag_key @ '': '' @ tag_value @ '']''"

text \<open>The resource is mutated in place, so it is returned also when a request raises.\<close>

fun set_resource_tags :: "env \<Rightarrow> snapshot \<Rightarrow> tags \<Rightarrow> state \<Rightarrow> snapshot \<times> unit result" where
  "set_resource_tags env resource [] st = (resource, Return () st)"
| "set_resource_tags env resource ((tag_key, tag_value) # rest) st =
     (if (case map_of (snap_tags resource) tag_key of
            None \<Rightarrow> True
          | Some v \<Rightarrow> v \<noteq> tag_value)
      then (case add_tag env resource tag_key tag_value
                   (emit (Print (tag_message (snap_id resource) tag_key tag_value)) st) of
              (resource1, Raised e st1) \<Rightarrow> (resource1, Raised e st1)
            | (resource1, Return u st1) \<Rightarrow> set_resource_tags env resource1 rest st1)
      else set_resource_tags env resource rest st)"

section \<open>Retention (lines 225-271)\<close>

text \<open>The classification loop: the deletelist and the lines logged for the others.\<close>

fun classify :: "period \<Rightarrow> snapshot list \<Rightarrow> snapshot list \<times> event list" where
  "classify p [] = ([], [])"
| "classify p (snap # rest) =
     (let sndesc = description snap; (deletelist, logged) = classify p rest in
      if startswith sndesc ''week_snapshot'' \<and> p = Week then (snap # deletelist, logged)
      else if startswith sndesc ''day_snapshot'' \<and> p = Day then (snap # deletelist, logged)
      else if startswith sndesc ''month_snapshot'' \<and> p = Month then (snap # deletelist, logged)
      else (deletelist, LogInfo (''     Skipping, not added to deletelist: '' @ sndesc) # logged))"

definition date_compare :: "snapshot \<Rightarrow> string" where
  "date_compare snapshot = start_time snapshot"

fun keep_of :: "config \<Rightarrow> period \<Rightarrow> int" where
  "keep_of cfg Day = keep_day cfg"
| "keep_of cfg Week = keep_week cfg"
| "keep_of cfg Month = keep_month cfg"

text \<open>\<^verbatim>\<open>range(delta)\<close> for \<^verbatim>\<open>delta = len(deletelist) - keep\<close>.\<close>

definition delta_range :: "snapshot list \<Rightarrow> int \<Rightarrow> nat list" where
  "delta_range deletelist keep = [0 ..< nat (int (length deletelist) - keep)]"

text \<open>The cascade: \<^verbatim>\<open>for copied_vol in copied_vols['Snapshots']\<close> (lines 268-270).\<close>

fun cascade_delete :: "env \<Rightarrow> string list \<Rightarrow> state \<Rightarrow> unit result" where
  "cascade_delete env [] st = Return () st"
| "cascade_delete env (cid # rest) st =
     (case provider_call env (DeleteCopy cid)
             (emit (LogInfo (''     Deleting copied snapshot: '' @ cid)) st) of
        Raised e st1 \<Rightarrow> Raised e st1
      | Return u st1 \<Rightarrow>
          cascade_delete env rest
            (st1\<lparr>dest_region := filter (\<lambda>c. copy_id c \<noteq> cid) (dest_region st1)\<rparr>))"

text \<open>
  What \<^verbatim>\<open>describe_snapshots\<close> answers for \<^verbatim>\<open>OwnerIds=['self']\<close> and the filter
  \<^verbatim>\<open>tag:source_snapshot_id\<close>: the identifiers of the matching snapshots of the
  destination region.
\<close>

definition copies_of :: "string \<Rightarrow> copy list \<Rightarrow> string list" where
  "copies_of sid region =
     map copy_id
       (filter (\<lambda>c. owned_by_self c \<and> map_of (copy_tags c) ''source_snapshot_id'' = Some sid)
          region)"

text \<open>The deletion loop \<^verbatim>\<open>for i in range(delta)\<close> (lines 253-271).\<close>

fun delete_loop :: "env \<Rightarrow> snapshot list \<Rightarrow> nat list \<Rightarrow> state \<Rightarrow> unit result" where
  "delete_loop env deletelist [] st = Return () st"
| "delete_loop env deletelist (i # indices) st =
     (if length deletelist \<le> i then Raised IndexError st
      else
        (case provider_call env (DeleteSnapshot (deletelist ! i))
                (emit (LogInfo (''     Deleting snapshot '' @ description (deletelist ! i))) st) of
           Raised e st1 \<Rightarrow> Raised e st1
         | Return u st1 \<Rightarrow>
             (let st2 = st1\<lparr>src_region :=
                              filter (\<lambda>s. snap_id s \<noteq> snap_id (deletelist ! i)) (src_region st1)\<rparr>
              in if \<not> dest_conn st2 then Raised (NameError ''dest_conn'') st2
                 else
                   (case provider_call env (DescribeSnapshots (snap_id (deletelist ! i)))
                           (emit (LogInfo (''     Deleting snapshots copies sourced from the original snapshot: ''
                                           @ snap_id (deletelist ! i))) st2) of
                      Raised e st3 \<Rightarrow> Raised e st3
                    | Return u st3 \<Rightarrow>
                        (case cascade_delete env
                                (copies_of (snap_id (deletelist ! i)) (dest_region st3)) st3 of
                           Raised e st4 \<Rightarrow> Raised e st4
                         | Return u st4 \<Rightarrow>
                             delete_loop env deletelist indices
                               (st4\<lparr>total_deletes := total_deletes st4 + 1\<rparr>))))))"

text \<open>\<^verbatim>\<open>vol.snapshots()\<close>: the snapshots of the source region that belong to the volume.\<close>

definition vol_snapshots :: "env \<Rightarrow> string \<Rightarrow> state \<Rightarrow> snapshot list result" where
  "vol_snapshots env vol st =
     (case provider_call env (GetAllSnapshots vol) st of
        Raised e st1 \<Rightarrow> Raised e st1
      | Return u st1 \<Rightarrow> Return (filter (\<lambda>s. volume_id s = vol) (src_region st1)) st1)"

definition log_deletelist :: "snapshot list \<Rightarrow> state \<Rightarrow> state" where
  "log_deletelist deletelist st =
     fold (\<lambda>snap s. emit (LogInfo (start_time snap)) (emit (LogInfo (''Snapshot:'' @ snap_id snap)) s))
          deletelist st"

text \<open>Lines 225-272 for one volume.\<close>

definition prune_phase :: "env \<Rightarrow> config \<Rightarrow> period \<Rightarrow> string \<Rightarrow> state \<Rightarrow> unit result" where
  "prune_phase env cfg p vol st =
     (case vol_snapshots env vol st of
        Raised e st1 \<Rightarrow> Raised e st1
      | Return snapshots st1 \<Rightarrow>
          (let deletelist = fst (classify p snapshots);
               st2 = log_deletelist deletelist (st1\<lparr>trace := trace st1 @ snd (classify p snapshots)\<rparr>);
               sorted_list = sort_key date_compare deletelist;
               keep = keep_of cfg p
           in case delete_loop env sorted_list (delta_range sorted_list keep) st2 of
                Raised e st3 \<Rightarrow> Raised e st3
              | Return u st3 \<Rightarrow> Return () (emit (Sleep 3) st3)))"

section \<open>Creating the snapshot (lines 171-191)\<close>

fun suffix_format :: "period \<Rightarrow> string" where
  "suffix_format Day = ''%a''"
| "suffix_format Week = ''%U''"
| "suffix_format Month = ''%b''"

text \<open>\<^verbatim>\<open>date_suffix\<close> is computed once, before anything else has happened.\<close>

definition date_suffix :: "env \<Rightarrow> period \<Rightarrow> string" where
  "date_suffix env p = strftime env (suffix_format p) []"

definition make_description :: "env \<Rightarrow> period \<Rightarrow> string \<Rightarrow> event list \<Rightarrow> string" where
  "make_description env p vol tr =
     period_str p @ ''_snapshot '' @ vol @ ''_'' @ period_str p @ ''_'' @ date_suffix env p
       @ '' by snapshot script at '' @ strftime env ''%d-%m-%Y %H:%M:%S'' tr"

text \<open>\<^verbatim>\<open>vol.create_snapshot(description)\<close>: the provider answers with a new pending snapshot.\<close>

definition create_snapshot :: "env \<Rightarrow> string \<Rightarrow> string \<Rightarrow> state \<Rightarrow> snapshot result" where
  "create_snapshot env vol descr st =
     (case provider_call env (CreateSnapshot vol descr) st of
        Raised e st1 \<Rightarrow> Raised e st1
      | Return u st1 \<Rightarrow>
          (let snap = \<lparr>snap_id = fresh_id env (trace st), volume_id = vol, description = descr,
                       start_time = strftime env ''%Y-%m-%dT%H:%M:%S.000Z'' (trace st),
                       status = ''pending'', snap_tags = []\<rparr>
           in Return snap (st1\<lparr>src_region := src_region st1 @ [snap]\<rparr>)))"

text \<open>The inner \<^verbatim>\<open>try\<close> of lines 180-190; its handler swallows the exception.\<close>

definition create_step :: "env \<Rightarrow> string \<Rightarrow> string \<Rightarrow> tags \<Rightarrow> state \<Rightarrow> state" where
  "create_step env vol descr tags_volume st =
     (case create_snapshot env vol descr st of
        Raised e st1 \<Rightarrow> log_exception e st1
      | Return snap st1 \<Rightarrow>
          (case set_resource_tags env snap tags_volume (st1\<lparr>current_snap := Some snap\<rparr>) of
             (snap1, Raised e st2) \<Rightarrow> log_exception e (st2\<lparr>current_snap := Some snap1\<rparr>)
           | (snap1, Return u st2) \<Rightarrow>
               (let suc_message = ''Snapshot created with description: '' @ descr
                                  @ '' and tags: '' @ str_tags tags_volume;
                    st3 = emit (LogInfo suc_message)
                            (emit (Print (''     '' @ suc_message)) (st2\<lparr>current_snap := Some snap1\<rparr>))
                in st3\<lparr>total_creates := total_creates st3 + 1\<rparr>)))"

definition snapshot_phase :: "env \<Rightarrow> period \<Rightarrow> string \<Rightarrow> state \<Rightarrow> (tags \<times> string) result" where
  "snapshot_phase env p vol st =
     (case get_resource_tags env vol
             (emit (LogInfo (''Volume:'' @ vol)) (st\<lparr>count_total := count_total st + 1\<rparr>)) of
        Raised e st1 \<Rightarrow> Raised e st1
      | Return tags_volume st1 \<Rightarrow>
          (let descr = make_description env p vol (trace st1)
           in Return (tags_volume, descr) (create_step env vol descr tags_volume st1)))"

section \<open>Copying to another region (lines 193-223)\<close>

text \<open>
  One round of the wait: \<^verbatim>\<open>time.sleep(5)\<close>, \<^verbatim>\<open>current_snap.update(validate=True)\<close>,
  which stores the status the provider reports now, and the \<^verbatim>\<open>print\<close> of that status.
\<close>

definition poll_once :: "env \<Rightarrow> snapshot \<Rightarrow> state \<Rightarrow> unit result" where
  "poll_once env cs st =
     (case provider_call env (UpdateSnapshot (snap_id cs)) (emit (Sleep 5) st) of
        Raised e st1 \<Rightarrow> Raised e st1
      | Return u st1 \<Rightarrow>
          Return ()
            (emit (Print (''     '' @ status_at env (snap_id cs) (ticks st1)))
               (st1\<lparr>ticks := ticks st1 + 1,
                    current_snap := Some (cs\<lparr>status := status_at env (snap_id cs) (ticks st1)\<rparr>)\<rparr>)))"

text \<open>
  The loop \<^verbatim>\<open>while True\<close> of lines 196-201. It has no bound, so the model is a partial
  function: \<open>None\<close> is a wait that never ends.
\<close>

partial_function (option) await_completed :: "env \<Rightarrow> state \<Rightarrow> unit result option" where
  "await_completed env st =
     (case current_snap st of
        None \<Rightarrow> Some (Raised (NameError ''current_snap'') st)
      | Some cs \<Rightarrow>
          if status cs = ''completed'' then Some (Return () st)
          else (case poll_once env cs st of
                  Raised e st1 \<Rightarrow> Some (Raised e st1)
                | Return u st1 \<Rightarrow> await_completed env st1))"

declare await_completed.simps [code]

text \<open>\<^verbatim>\<open>tags_volume.get('Name') or current_snap.id\<close>.\<close>

fun or_else :: "string option \<Rightarrow> string \<Rightarrow> string" where
  "or_else None y = y"
| "or_else (Some x) y = (if x = [] then y else x)"

text \<open>Lines 203-219, entered once the wait has returned.\<close>

definition copy_to :: "env \<Rightarrow> config \<Rightarrow> string \<Rightarrow> string \<Rightarrow> tags \<Rightarrow> state \<Rightarrow> unit result" where
  "copy_to env cfg region descr tags_volume st =
     (case current_snap st of
        None \<Rightarrow> Raised (NameError ''current_snap'') st
      | Some cs \<Rightarrow>
          (case provider_call env
                  (CopySnapshot (ec2_region_name cfg) (snap_id cs)
                     (''[Copied from '' @ ec2_region_name cfg @ ''] '' @ descr)) st of
             Raised e st1 \<Rightarrow> Raised e st1
           | Return u st1 \<Rightarrow>
               (let copied_snap = fresh_id env (trace st);
                    new_tags = [(''source_snapshot_id'', snap_id cs),
                                (''Name'', or_else (map_of tags_volume ''Name'') (snap_id cs))];
                    st2 = st1\<lparr>dest_region := dest_region st1
                               @ [\<lparr>copy_id = copied_snap, owned_by_self = True, copy_tags = []\<rparr>]\<rparr>
                in case provider_call env (CreateTags copied_snap new_tags) st2 of
                     Raised e st3 \<Rightarrow> Raised e st3
                   | Return u st3 \<Rightarrow>
                       (let st4 = st3\<lparr>dest_region :=
                                        map (\<lambda>c. if copy_id c = copied_snap
                                                 then c\<lparr>copy_tags := fold (\<lambda>(k, v). AList.update k v)
                                                                         new_tags (copy_tags c)\<rparr>
                                                 else c) (dest_region st3)\<rparr>;
                            suc_message = ''Snapshot copied to '' @ region;
                            st5 = emit (LogInfo suc_message) (emit (Print (''     '' @ suc_message)) st4)
                        in Return () (st5\<lparr>total_copies := total_copies st5 + 1\<rparr>)))))"

text \<open>The body of the \<^verbatim>\<open>try\<close> of lines 194-219.\<close>

definition copy_step :: "env \<Rightarrow> config \<Rightarrow> string \<Rightarrow> string \<Rightarrow> tags \<Rightarrow> state \<Rightarrow> unit result option" where
  "copy_step env cfg region descr tags_volume st =
     (case await_completed env st of
        None \<Rightarrow> None
      | Some (Raised e st1) \<Rightarrow> Some (Raised e st1)
      | Some (Return u st1) \<Rightarrow> Some (copy_to env cfg region descr tags_volume (st1\<lparr>dest_conn := True\<rparr>)))"

definition copy_phase :: "env \<Rightarrow> config \<Rightarrow> string \<Rightarrow> tags \<Rightarrow> state \<Rightarrow> state option" where
  "copy_phase env cfg descr tags_volume st =
     (if truthy (copy_region_name cfg)
      then (case copy_step env cfg (the (copy_region_name cfg)) descr tags_volume st of
              None \<Rightarrow> None
            | Some (Raised e st1) \<Rightarrow> Some (log_exception e st1)
            | Some (Return u st1) \<Rightarrow> Some st1)
      else Some st)"

section \<open>The volume loop (lines 169-280)\<close>

definition process_volume :: "env \<Rightarrow> config \<Rightarrow> period \<Rightarrow> string \<Rightarrow> state \<Rightarrow> unit result option" where
  "process_volume env cfg p vol st =
     (case snapshot_phase env p vol st of
        Raised e st1 \<Rightarrow> Some (Raised e st1)
      | Return (tags_volume, descr) st1 \<Rightarrow>
          (case copy_phase env cfg descr tags_volume st1 of
             None \<Rightarrow> None
           | Some st2 \<Rightarrow> Some (prune_phase env cfg p vol st2)))"

text \<open>The bare \<^verbatim>\<open>except:\<close> of line 273 and the \<^verbatim>\<open>else:\<close> of line 279.\<close>

definition volume_failed :: "string \<Rightarrow> error \<Rightarrow> state \<Rightarrow> state" where
  "volume_failed vol e st =
     (let st1 = emit (LogError (''Error in processing volume with id: '' @ vol))
                  (emit (Traceback e) (emit (PrintError e) st))
      in st1\<lparr>errmsg := errmsg st1 @ ''Error in processing volume with id: '' @ vol,
             count_errors := count_errors st1 + 1\<rparr>)"

definition run_volume :: "env \<Rightarrow> config \<Rightarrow> period \<Rightarrow> string \<Rightarrow> state \<Rightarrow> state option" where
  "run_volume env cfg p vol st =
     (case process_volume env cfg p vol st of
        None \<Rightarrow> None
      | Some (Raised e st1) \<Rightarrow> Some (volume_failed vol e st1)
      | Some (Return u st1) \<Rightarrow> Some (st1\<lparr>count_success := count_success st1 + 1\<rparr>))"

fun volume_loop :: "env \<Rightarrow> config \<Rightarrow> period \<Rightarrow> string list \<Rightarrow> state \<Rightarrow> state option" where
  "volume_loop env cfg p [] st = Some st"
| "volume_loop env cfg p (vol # vols) st =
     (case run_volume env cfg p vol st of
        None \<Rightarrow> None
      | Some st1 \<Rightarrow> volume_loop env cfg p vols st1)"

section \<open>The report (lines 282-303)\<close>

definition nl :: string where
  "nl = [CHR 0x0A]"

definition result_text :: "env \<Rightarrow> state \<Rightarrow> string" where
  "result_text env st =
     nl @ ''Finished making snapshots at '' @ strftime env ''%d-%m-%Y %H:%M:%S'' (trace st)
       @ '' with '' @ str_nat (count_success st) @ '' snapshots of '' @ str_nat (count_total st)
       @ '' possible.'' @ nl @ nl"

definition summary :: "env \<Rightarrow> state \<Rightarrow> string" where
  "summary env st =
     message st @ result_text env st
       @ nl @ ''Total snapshots created: '' @ str_nat (total_creates st)
       @ nl @ ''Total snapshots copied: '' @ str_nat (total_copies st)
       @ nl @ ''Total snapshots errors: '' @ str_nat (count_errors st)
       @ nl @ ''Total snapshots deleted: '' @ str_nat (total_deletes st) @ nl"

definition print_summary :: "env \<Rightarrow> state \<Rightarrow> state" where
  "print_summary env st =
     emit (Print (result_text env st))
       (emit (Print (nl @ summary env st @ nl)) (st\<lparr>message := summary env st\<rparr>))"

definition sns_report :: "env \<Rightarrow> string \<Rightarrow> string \<Rightarrow> state \<Rightarrow> unit result" where
  "sns_report env sns_arn result st =
     (case (if errmsg st \<noteq> []
            then provider_call env
                   (SnsPublish sns_arn (''Error in processing volumes: '' @ errmsg st)
                      ''Error with AWS Snapshot'') st
            else Return () st) of
        Raised e st1 \<Rightarrow> Raised e st1
      | Return u st1 \<Rightarrow>
          provider_call env (SnsPublish sns_arn (message st1) ''Finished AWS snapshotting'') st1)"

definition finish :: "env \<Rightarrow> config \<Rightarrow> state \<Rightarrow> unit result" where
  "finish env cfg st =
     (let result = result_text env st; st1 = print_summary env st
      in if truthy (arn cfg)
         then (case sns_report env (the (arn cfg)) result st1 of
                 Raised e st2 \<Rightarrow> Raised e st2
               | Return u st2 \<Rightarrow> Return () (emit (LogInfo result) st2))
         else Return () (emit (LogInfo result) st1))"

section \<open>The whole script\<close>

definition init_state :: "snapshot list \<Rightarrow> copy list \<Rightarrow> state" where
  "init_state src dst =
     \<lparr>message = [], errmsg = [], total_creates = 0, total_copies = 0, total_deletes = 0,
      count_errors = 0, count_success = 0, count_total = 0, current_snap = None,
      dest_conn = False, src_region = src, dest_region = dst, ticks = 0, trace = []\<rparr>"

text \<open>
  How the process ends: \<^verbatim>\<open>quit(code)\<close> after the events so far, the last line of the
  script, or an exception that nothing catches. \<open>Quit\<close> carries the argument of
  \<^verbatim>\<open>quit\<close>, which is \<^verbatim>\<open>None\<close> when it is called without one.
\<close>

datatype outcome = Quit "int option" "event list" | Finished state | Crashed error state

text \<open>
  The exit status of the process: \<^verbatim>\<open>quit\<close> raises \<^verbatim>\<open>SystemExit\<close> with its argument, and
  the interpreter exits with 0 for \<^verbatim>\<open>None\<close> and with the number for an integer; it exits
  with 0 after the last line and with 1 on an exception that nothing catches.
\<close>

fun exit_status :: "outcome \<Rightarrow> int" where
  "exit_status (Quit None tr) = 0"
| "exit_status (Quit (Some code) tr) = code"
| "exit_status (Finished st) = 0"
| "exit_status (Crashed e st) = 1"

definition startup :: "env \<Rightarrow> config \<Rightarrow> period \<Rightarrow> state \<Rightarrow> string list result" where
  "startup env cfg p st =
     (let start_message = ''Started taking '' @ period_str p @ '' snapshots at ''
                          @ strftime env ''%d-%m-%Y %H:%M:%S'' (trace st);
          st1 = emit (LogInfo start_message) (st\<lparr>message := message st @ start_message @ nl @ nl\<rparr>)
      in case (if truthy (iam_role_arn cfg)
               then provider_call env (AssumeRole (the (iam_role_arn cfg))) st1
               else Return () st1) of
           Raised e st2 \<Rightarrow> Raised e st2
         | Return u st2 \<Rightarrow>
             (let st3 = emit (Print ''Connecting to AWS'') st2;
                  st4 = (if truthy (arn cfg) then emit (Print ''Connecting to SNS'') st3 else st3);
                  st5 = emit (Print (''Finding volumes that match the requested tag ({ '' @ [CHR 0x22]
                                     @ ''tag:'' @ config_tag_name cfg @ [CHR 0x22] @ '': '' @ [CHR 0x22]
                                     @ config_tag_value cfg @ [CHR 0x22] @ '' })'')) st4
              in case provider_call env
                        (GetAllVolumes (''tag:'' @ config_tag_name cfg) (config_tag_value cfg)) st5 of
                   Raised e st6 \<Rightarrow> Raised e st6
                 | Return u st6 \<Rightarrow>
                     Return (filter (\<lambda>v. map_of (tags_of env v) (config_tag_name cfg)
                                         = Some (config_tag_value cfg)) (volumes env)) st6))"

definition main :: "string list \<Rightarrow> env \<Rightarrow> config \<Rightarrow> snapshot list \<Rightarrow> copy list \<Rightarrow> outcome option" where
  "main argv env cfg src dst =
     (case parse_argv argv of
        Inl usage \<Rightarrow> Some (Quit None [Print usage])
      | Inr p \<Rightarrow>
          (case startup env cfg p (init_state src dst) of
             Raised e st1 \<Rightarrow> Some (Crashed e st1)
           | Return vols st1 \<Rightarrow>
               (case volume_loop env cfg p vols st1 of
                  None \<Rightarrow> None
                | Some st2 \<Rightarrow>
                    (case finish env cfg st2 of
                       Raised e st3 \<Rightarrow> Some (Crashed e st3)
                     | Return u st3 \<Rightarrow> Some (Finished st3)))))"
section \<open>Notions used in the statements\<close>

text \<open>A snapshot is a candidate of a period when its description starts with the marker
  of that period.\<close>

definition candidate :: "period \<Rightarrow> snapshot \<Rightarrow> bool" where
  "candidate p s = startswith (description s) (period_str p @ ''_snapshot'')"

text \<open>The events of one run of \<open>set_resource_tags\<close> in which no request is rejected: a
  \<^verbatim>\<open>print\<close> and a tagging request for each tag that the resource lacks or holds with
  another value.\<close>

fun tag_events :: "snapshot \<Rightarrow> tags \<Rightarrow> event list" where
  "tag_events r [] = []"
| "tag_events r ((k, v) # rest) =
     (if map_of (snap_tags r) k = Some v then tag_events r rest
      else Print (tag_message (snap_id r) k v) # Call (AddTag (snap_id r) k v) # tag_events r rest)"

text \<open>The events that a step adds to the trace, and the snapshots that a sequence of events
  asks the provider to delete, in the order of the requests.\<close>

definition new_events :: "state \<Rightarrow> state \<Rightarrow> event list" where
  "new_events st st' = drop (length (trace st)) (trace st')"

definition delete_requests :: "event list \<Rightarrow> snapshot list" where
  "delete_requests tr =
     concat (map (\<lambda>e. case e of Call (DeleteSnapshot s) \<Rightarrow> [s] | _ \<Rightarrow> []) tr)"

text \<open>What \<^verbatim>\<open>vol.snapshots()\<close> lists in a state.\<close>

definition listed :: "string \<Rightarrow> state \<Rightarrow> snapshot list" where
  "listed vol st = filter (\<lambda>s. volume_id s = vol) (src_region st)"

text \<open>The candidates of a volume: its listed snapshots that carry the marker of the period.\<close>

definition candidates :: "period \<Rightarrow> string \<Rightarrow> state \<Rightarrow> snapshot list" where
  "candidates p vol st = filter (candidate p) (listed vol st)"


text \<open>Everything the process has done when it ends.\<close>

fun final_trace :: "outcome \<Rightarrow> event list" where
  "final_trace (Quit code tr) = tr"
| "final_trace (Finished st) = trace st"
| "final_trace (Crashed e st) = trace st"

section \<open>Concrete inputs\<close>

definition snapA :: snapshot where
  "snapA = \<lparr>snap_id = ''snap-a'', volume_id = ''vol-1'', description = ''day_snapshot a'',
            start_time = ''2020-01-03'', status = ''completed'', snap_tags = []\<rparr>"

definition snapB :: snapshot where
  "snapB = \<lparr>snap_id = ''snap-b'', volume_id = ''vol-1'', description = ''day_snapshot b'',
            start_time = ''2020-01-01'', status = ''completed'', snap_tags = []\<rparr>"

definition snapC :: snapshot where
  "snapC = \<lparr>snap_id = ''snap-c'', volume_id = ''vol-1'', description = ''day_snapshot c'',
            start_time = ''2020-01-02'', status = ''completed'', snap_tags = []\<rparr>"

text \<open>A provider that rejects nothing and reports every snapshot as completed.\<close>

definition env0 :: env where
  "env0 = \<lparr>rejects = (\<lambda>tr c. False),
           fresh_id = (\<lambda>tr. ''snap-'' @ str_nat (length tr)),
           strftime = (\<lambda>fmt tr. ''T'' @ str_nat (length tr)),
           status_at = (\<lambda>sid n. ''completed''),
           volumes = [''vol-1''],
           tags_of = (\<lambda>rid. [(''Name'', ''web''), (''aws:x'', ''y'')])\<rparr>"

definition cfg0 :: config where
  "cfg0 = \<lparr>log_file = ''snap.log'', iam_role_arn = None, ec2_region_name = ''eu-west-1'',
           arn = None, copy_region_name = None, keep_day = 1, keep_week = 1, keep_month = 1,
           config_tag_name = ''Name'', config_tag_value = ''web''\<rparr>"

text \<open>A state in which the volume has three daily snapshots, before and after a destination
  connection has been bound.\<close>

definition st_abc :: state where
  "st_abc = init_state [snapA, snapB, snapC] []"

definition st_abc_bound :: state where
  "st_abc_bound = st_abc\<lparr>dest_conn := True\<rparr>"

text \<open>A provider on which no snapshot ever completes, a pending snapshot, and a state in which
  that snapshot is the current one.\<close>

definition env_pending :: env where
  "env_pending = env0\<lparr>status_at := (\<lambda>sid n. ''pending'')\<rparr>"

definition snapP :: snapshot where
  "snapP = \<lparr>snap_id = ''snap-p'', volume_id = ''vol-1'', description = ''day_snapshot p'',
            start_time = ''2020-01-04'', status = ''pending'', snap_tags = []\<rparr>"

definition st_pending :: state where
  "st_pending = (init_state [snapP] [])\<lparr>current_snap := Some snapP\<rparr>"

text \<open>A configuration with a destination region.\<close>

definition cfg_copy :: config where
  "cfg_copy = cfg0\<lparr>copy_region_name := Some ''us-east-1''\<rparr>"

text \<open>A provider with three volumes that rejects every request to create a snapshot of the
  second one, and nothing else.\<close>

definition env_three :: env where
  "env_three = env0\<lparr>rejects := (\<lambda>tr c. case c of CreateSnapshot vol descr \<Rightarrow> vol = ''vol-2'' | _ \<Rightarrow> False),
                   volumes := [''vol-1'', ''vol-2'', ''vol-3'']\<rparr>"

definition tags0 :: tags where
  "tags0 = [(''Name'', ''web''), (''env'', ''prod'')]"

section \<open>Bookkeeping for the proofs\<close>

text \<open>The later state has the trace of the earlier one, extended by events that satisfy \<open>Q\<close>.\<close>

definition extends :: "(event \<Rightarrow> bool) \<Rightarrow> state \<Rightarrow> state \<Rightarrow> bool" where
  "extends Q st st' = (\<exists>ext. trace st' = trace st @ ext \<and> list_all Q ext)"

text \<open>A property of events that can only fail on a request to delete a snapshot.\<close>

definition harmless :: "(event \<Rightarrow> bool) \<Rightarrow> bool" where
  "harmless Q = (\<forall>e. (\<forall>s. e \<noteq> Call (DeleteSnapshot s)) \<longrightarrow> Q e)"

text \<open>The variables that only the volume loop itself writes, and the variables that the
  steps of the loop body leave alone.\<close>

definition outer :: "state \<Rightarrow> string \<times> string \<times> nat \<times> nat \<times> nat" where
  "outer st = (message st, errmsg st, count_errors st, count_success st, count_total st)"

definition view_tags ::
  "state \<Rightarrow> (string \<times> string \<times> nat \<times> nat \<times> nat) \<times> nat \<times> nat \<times> nat \<times> snapshot option \<times> bool \<times> copy list \<times> nat" where
  "view_tags st = (outer st, total_creates st, total_copies st, total_deletes st, current_snap st,
                   dest_conn st, dest_region st, ticks st)"

definition view_create ::
  "state \<Rightarrow> (string \<times> string \<times> nat \<times> nat \<times> nat) \<times> nat \<times> nat \<times> bool \<times> copy list \<times> nat" where
  "view_create st = (outer st, total_copies st, total_deletes st, dest_conn st, dest_region st, ticks st)"

definition view_copy ::
  "state \<Rightarrow> (string \<times> string \<times> nat \<times> nat \<times> nat) \<times> nat \<times> nat \<times> snapshot list" where
  "view_copy st = (outer st, total_creates st, total_deletes st, src_region st)"

definition view_prune ::
  "state \<Rightarrow> (string \<times> string \<times> nat \<times> nat \<times> nat) \<times> nat \<times> nat \<times> snapshot option \<times> bool \<times> nat" where
  "view_prune st = (outer st, total_creates st, total_copies st, current_snap st, dest_conn st, ticks st)"

definition view_poll ::
  "state \<Rightarrow> (string \<times> string \<times> nat \<times> nat \<times> nat) \<times> nat \<times> nat \<times> nat \<times> bool \<times> snapshot list \<times> copy list" where
  "view_poll st = (outer st, total_creates st, total_copies st, total_deletes st, dest_conn st,
                   src_region st, dest_region st)"

text \<open>The events of the completion wait for the snapshot \<open>sid\<close>.\<close>

definition poll_event :: "string \<Rightarrow> event \<Rightarrow> bool" where
  "poll_event sid e = (e = Sleep 5 \<or> e = Call (UpdateSnapshot sid) \<or> (\<exists>s. e = Print s))"

text \<open>The state in which the creation request of a volume is sent (after the tags of the
  volume have been fetched), and whether the provider rejects that request.\<close>

definition before_create :: "env \<Rightarrow> string \<Rightarrow> state \<Rightarrow> tags result" where
  "before_create env vol st =
     get_resource_tags env vol
       (emit (LogInfo (''Volume:'' @ vol)) (st\<lparr>count_total := count_total st + 1\<rparr>))"

definition create_rejected :: "env \<Rightarrow> period \<Rightarrow> string \<Rightarrow> state \<Rightarrow> bool" where
  "create_rejected env p vol st =
     (case before_create env vol st of
        Raised e st1 \<Rightarrow> False
      | Return tgs st1 \<Rightarrow>
          rejects env (trace st1) (CreateSnapshot vol (make_description env p vol (trace st1))))"

definition create_accepted :: "env \<Rightarrow> period \<Rightarrow> string \<Rightarrow> state \<Rightarrow> bool" where
  "create_accepted env p vol st =
     (case before_create env vol st of
        Raised e st1 \<Rightarrow> False
      | Return tgs st1 \<Rightarrow>
          \<not> rejects env (trace st1) (CreateSnapshot vol (make_description env p vol (trace st1))))"

section \<open>Lemmas about the steps of the loop body\<close>

lemmas views = outer_def view_tags_def view_create_def view_copy_def view_prune_def

lemma harmless_simps:
  "harmless Q \<Longrightarrow> Q (Print s)"
  "harmless Q \<Longrightarrow> Q (PrintError x)"
  "harmless Q \<Longrightarrow> Q (Traceback x)"
  "harmless Q \<Longrightarrow> Q (LogInfo s)"
  "harmless Q \<Longrightarrow> Q (LogError s)"
  "harmless Q \<Longrightarrow> Q (LogException x)"
  "harmless Q \<Longrightarrow> Q (Sleep n)"
  "harmless Q \<Longrightarrow> (\<forall>s. c \<noteq> DeleteSnapshot s) \<Longrightarrow> Q (Call c)"
  by (simp_all add: harmless_def)

lemma harmless_True: "harmless (\<lambda>e. True)"
  by (simp add: harmless_def)

lemma extends_refl: "extends Q st st"
  by (simp add: extends_def)

lemma extends_trans: "extends Q st st1 \<Longrightarrow> extends Q st1 st2 \<Longrightarrow> extends Q st st2"
  by (auto simp: extends_def)

lemma extends_emit: "Q e \<Longrightarrow> extends Q st (emit e st)"
  by (simp add: extends_def emit_def)

lemma extends_mem: "extends Q st st' \<Longrightarrow> e \<in> set (trace st) \<Longrightarrow> e \<in> set (trace st')"
  by (auto simp: extends_def)

lemma extends_new: "extends Q st st' \<Longrightarrow> e \<in> set (trace st') \<Longrightarrow> e \<in> set (trace st) \<or> Q e"
  by (auto simp: extends_def list_all_iff)

lemma emit_simps [simp]:
  "trace (emit e st) = trace st @ [e]"
  "message (emit e st) = message st"
  "errmsg (emit e st) = errmsg st"
  "total_creates (emit e st) = total_creates st"
  "total_copies (emit e st) = total_copies st"
  "total_deletes (emit e st) = total_deletes st"
  "count_errors (emit e st) = count_errors st"
  "count_success (emit e st) = count_success st"
  "count_total (emit e st) = count_total st"
  "current_snap (emit e st) = current_snap st"
  "dest_conn (emit e st) = dest_conn st"
  "src_region (emit e st) = src_region st"
  "dest_region (emit e st) = dest_region st"
  "ticks (emit e st) = ticks st"
  by (simp_all add: emit_def)

lemma log_exception_simps [simp]:
  "trace (log_exception e st) = trace st @ [PrintError e, Traceback e, LogException e]"
  "message (log_exception e st) = message st"
  "errmsg (log_exception e st) = errmsg st"
  "total_creates (log_exception e st) = total_creates st"
  "total_copies (log_exception e st) = total_copies st"
  "total_deletes (log_exception e st) = total_deletes st"
  "count_errors (log_exception e st) = count_errors st"
  "count_success (log_exception e st) = count_success st"
  "count_total (log_exception e st) = count_total st"
  "current_snap (log_exception e st) = current_snap st"
  "dest_conn (log_exception e st) = dest_conn st"
  "src_region (log_exception e st) = src_region st"
  "dest_region (log_exception e st) = dest_region st"
  "ticks (log_exception e st) = ticks st"
  by (simp_all add: log_exception_def)

lemma provider_call_cases:
  obtains (rejected) "rejects env (trace st) c"
      "provider_call env c st = Raised (ProviderError c) (emit (Call c) st)"
  | (accepted) "\<not> rejects env (trace st) c"
      "provider_call env c st = Return () (emit (Call c) st)"
  by (cases "rejects env (trace st) c") (simp_all add: provider_call_def)

lemma add_tag_cases:
  obtains (rejected) "rejects env (trace st) (AddTag (snap_id r) k v)"
      "add_tag env r k v st
         = (r, Raised (ProviderError (AddTag (snap_id r) k v)) (emit (Call (AddTag (snap_id r) k v)) st))"
  | (accepted) "\<not> rejects env (trace st) (AddTag (snap_id r) k v)"
      "add_tag env r k v st
         = (r\<lparr>snap_tags := AList.update k v (snap_tags r)\<rparr>,
            Return ()
              ((emit (Call (AddTag (snap_id r) k v)) st)
                 \<lparr>src_region :=
                    map (\<lambda>s. if snap_id s = snap_id r
                             then s\<lparr>snap_tags := AList.update k v (snap_tags s)\<rparr>
                             else s) (src_region st)\<rparr>))"
  by (cases rule: provider_call_cases[of env st "AddTag (snap_id r) k v"])
     (simp_all add: add_tag_def)

lemma add_tag_facts:
  assumes "add_tag env r k v st = (r', res)"
  shows "view_tags (state_of res) = view_tags st"
    and "harmless Q \<Longrightarrow> extends Q st (state_of res)"
    and "snap_id r' = snap_id r" "volume_id r' = volume_id r" "status r' = status r"
    and "\<And>e st'. res = Raised e st' \<Longrightarrow> e = ProviderError (AddTag (snap_id r) k v)"
proof -
  show "view_tags (state_of res) = view_tags st"
    using assms by (cases rule: add_tag_cases[of env st r k v]) (auto simp: views)
  show "harmless Q \<Longrightarrow> extends Q st (state_of res)"
    using assms by (cases rule: add_tag_cases[of env st r k v]) (auto simp: extends_def harmless_simps)
  show "snap_id r' = snap_id r" "volume_id r' = volume_id r" "status r' = status r"
    using assms by (cases rule: add_tag_cases[of env st r k v]; auto)+
  show "\<And>e st'. res = Raised e st' \<Longrightarrow> e = ProviderError (AddTag (snap_id r) k v)"
    using assms by (cases rule: add_tag_cases[of env st r k v]) auto
qed

lemma set_resource_tags_facts:
  "set_resource_tags env r tgs st = (r', res) \<Longrightarrow> harmless Q \<Longrightarrow>
     view_tags (state_of res) = view_tags st
     \<and> extends Q st (state_of res)
     \<and> snap_id r' = snap_id r \<and> volume_id r' = volume_id r \<and> status r' = status r
     \<and> (\<forall>e st'. res = Raised e st' \<longrightarrow> (\<exists>k v. e = ProviderError (AddTag (snap_id r) k v)))"
proof (induction tgs arbitrary: r st)
  case Nil
  then show ?case by (auto simp: extends_refl)
next
  case (Cons a tgs)
  obtain k v where a: "a = (k, v)" by (cases a)
  show ?case
  proof (cases "map_of (snap_tags r) k = Some v")
    case True
    with Cons.prems(1) a have run: "set_resource_tags env r tgs st = (r', res)"
      by simp
    from Cons.IH[OF run Cons.prems(2)] show ?thesis .
  next
    case False
    let ?st = "emit (Print (tag_message (snap_id r) k v)) st"
    obtain r1 res1 where at: "add_tag env r k v ?st = (r1, res1)"
      by (cases "add_tag env r k v ?st")
    note f = add_tag_facts[OF at]
    have ex0: "extends Q st (state_of res1)"
      using extends_trans[OF extends_emit[of Q, OF harmless_simps(1)[OF Cons.prems(2)]] f(2)[OF Cons.prems(2)]] .
    have fr0: "view_tags (state_of res1) = view_tags st"
      using f(1) by (simp add: views)
    show ?thesis
    proof (cases res1)
      case (Raised e st1)
      with Cons.prems(1) a False at have "r' = r1" "res = Raised e st1"
        by (auto split: option.splits)
      with Raised fr0 ex0 f(3,4,5) f(6)[OF Raised] show ?thesis
        by auto
    next
      case (Return u st1)
      with Cons.prems(1) a False at have run: "set_resource_tags env r1 tgs st1 = (r', res)"
        by (auto split: option.splits)
      have ih: "view_tags (state_of res) = view_tags st1
         \<and> extends Q st1 (state_of res)
         \<and> snap_id r' = snap_id r1 \<and> volume_id r' = volume_id r1 \<and> status r' = status r1
         \<and> (\<forall>e st'. res = Raised e st' \<longrightarrow> (\<exists>k v. e = ProviderError (AddTag (snap_id r1) k v)))"
        by (rule Cons.IH[OF run Cons.prems(2)])
      have "extends Q st (state_of res)"
        using ex0 ih Return extends_trans[of Q st st1 "state_of res"] by simp
      moreover have "view_tags (state_of res) = view_tags st"
        using ih fr0 Return by simp
      ultimately show ?thesis
        using ih f(3,4,5) by simp
    qed
  qed
qed

lemma get_resource_tags_cases:
  obtains (skipped) "rid = []" "get_resource_tags env rid st = Return [] st"
  | (rejected) "rejects env (trace st) (GetAllTags rid)"
      "get_resource_tags env rid st = Raised (ProviderError (GetAllTags rid)) (emit (Call (GetAllTags rid)) st)"
  | (accepted) tgs where "\<not> rejects env (trace st) (GetAllTags rid)"
      "get_resource_tags env rid st = Return tgs (emit (Call (GetAllTags rid)) st)"
  by (cases "rid = []"; cases rule: provider_call_cases[of env st "GetAllTags rid"])
     (simp_all add: get_resource_tags_def)

lemma create_snapshot_cases:
  obtains (rejected) "rejects env (trace st) (CreateSnapshot vol d)"
      "create_snapshot env vol d st
         = Raised (ProviderError (CreateSnapshot vol d)) (emit (Call (CreateSnapshot vol d)) st)"
  | (accepted) snap where "\<not> rejects env (trace st) (CreateSnapshot vol d)"
      "snap = \<lparr>snap_id = fresh_id env (trace st), volume_id = vol, description = d,
               start_time = strftime env ''%Y-%m-%dT%H:%M:%S.000Z'' (trace st),
               status = ''pending'', snap_tags = []\<rparr>"
      "create_snapshot env vol d st
         = Return snap ((emit (Call (CreateSnapshot vol d)) st)\<lparr>src_region := src_region st @ [snap]\<rparr>)"
  by (cases rule: provider_call_cases[of env st "CreateSnapshot vol d"])
     (simp_all add: create_snapshot_def Let_def)

lemma create_step_rejected:
  "rejects env (trace st) (CreateSnapshot vol d) \<Longrightarrow>
     create_step env vol d tgs st
       = log_exception (ProviderError (CreateSnapshot vol d)) (emit (Call (CreateSnapshot vol d)) st)"
  by (cases rule: create_snapshot_cases[of env st vol d]) (simp_all add: create_step_def)

text \<open>What the creation step leaves behind.\<close>

lemma create_step_facts:
  assumes "harmless Q"
  shows "view_create (create_step env vol d tgs st) = view_create st"
    and "extends Q st (create_step env vol d tgs st)"
    and "\<not> rejects env (trace st) (CreateSnapshot vol d) \<Longrightarrow>
          \<exists>cs. current_snap (create_step env vol d tgs st) = Some cs \<and> volume_id cs = vol
                \<and> snap_id cs = fresh_id env (trace st)"
    and "rejects env (trace st) (CreateSnapshot vol d) \<Longrightarrow>
           current_snap (create_step env vol d tgs st) = current_snap st
           \<and> total_creates (create_step env vol d tgs st) = total_creates st
           \<and> src_region (create_step env vol d tgs st) = src_region st"
    and "total_creates (create_step env vol d tgs st) = total_creates st + 1
          \<and> \<not> rejects env (trace st) (CreateSnapshot vol d)
        \<or> total_creates (create_step env vol d tgs st) = total_creates st
          \<and> (\<exists>e. PrintError e \<in> set (trace (create_step env vol d tgs st))
                  \<and> (e = ProviderError (CreateSnapshot vol d)
                       \<or> (\<exists>a k v. e = ProviderError (AddTag a k v))))"
proof -
  let ?P = "view_create (create_step env vol d tgs st) = view_create st
     \<and> extends Q st (create_step env vol d tgs st)
     \<and> (\<not> rejects env (trace st) (CreateSnapshot vol d) \<longrightarrow>
          (\<exists>cs. current_snap (create_step env vol d tgs st) = Some cs \<and> volume_id cs = vol
                \<and> snap_id cs = fresh_id env (trace st)))
     \<and> (rejects env (trace st) (CreateSnapshot vol d) \<longrightarrow>
           current_snap (create_step env vol d tgs st) = current_snap st
           \<and> total_creates (create_step env vol d tgs st) = total_creates st
           \<and> src_region (create_step env vol d tgs st) = src_region st)
     \<and> (total_creates (create_step env vol d tgs st) = total_creates st + 1
          \<and> \<not> rejects env (trace st) (CreateSnapshot vol d)
        \<or> total_creates (create_step env vol d tgs st) = total_creates st
          \<and> (\<exists>e. PrintError e \<in> set (trace (create_step env vol d tgs st))
                  \<and> (e = ProviderError (CreateSnapshot vol d)
                       \<or> (\<exists>a k v. e = ProviderError (AddTag a k v)))))"
  have ?P
  proof (cases rule: create_snapshot_cases[of env st vol d])
    case rejected
    have "extends Q st (log_exception (ProviderError (CreateSnapshot vol d)) (emit (Call (CreateSnapshot vol d)) st))"
      using assms by (simp add: extends_def harmless_simps)
    moreover have "PrintError (ProviderError (CreateSnapshot vol d)) \<in> set (trace (create_step env vol d tgs st))"
      by (simp add: create_step_rejected[OF rejected(1)])
    ultimately show ?thesis
      using rejected(1) by (simp add: create_step_rejected[OF rejected(1)] views) blast
  next
    case (accepted snap)
    let ?st1 = "(emit (Call (CreateSnapshot vol d)) st)\<lparr>src_region := src_region st @ [snap], current_snap := Some snap\<rparr>"
    obtain r res where run: "set_resource_tags env snap tgs ?st1 = (r, res)"
      by (cases "set_resource_tags env snap tgs ?st1")
    note facts = set_resource_tags_facts[OF run assms]
    have ex1: "extends Q st ?st1"
      using assms by (simp add: extends_def harmless_simps)
    have ex: "extends Q st (state_of res)"
      using extends_trans[OF ex1] facts by blast
    have fr: "view_create (state_of res) = view_create st" "total_creates (state_of res) = total_creates st"
      using facts by (simp_all add: views)
    have ids: "volume_id r = vol" "snap_id r = fresh_id env (trace st)"
      using facts accepted(2) by simp_all
    show ?thesis
    proof (cases res)
      case (Raised e st')
      then have cs: "create_step env vol d tgs st = log_exception e (st'\<lparr>current_snap := Some r\<rparr>)"
        using accepted(3) run by (simp add: create_step_def)
      from facts Raised obtain k v where e: "e = ProviderError (AddTag (snap_id snap) k v)"
        by blast
      from ex Raised obtain ext where ext: "trace st' = trace st @ ext" "list_all Q ext"
        by (auto simp: extends_def)
      have ex2: "extends Q st (log_exception e (st'\<lparr>current_snap := Some r\<rparr>))"
        using ext assms by (simp add: extends_def harmless_simps)
      have pe: "PrintError e \<in> set (trace (log_exception e (st'\<lparr>current_snap := Some r\<rparr>)))"
        by simp
      have vc: "view_create (log_exception e (st'\<lparr>current_snap := Some r\<rparr>)) = view_create st"
        using fr(1) Raised by (simp add: views)
      have tc: "total_creates (log_exception e (st'\<lparr>current_snap := Some r\<rparr>)) = total_creates st"
        using fr(2) Raised by simp
      show ?thesis
        unfolding cs using vc ex2 ids tc e accepted(1) pe by auto
    next
      case (Return u st')
      let ?msg = "''Snapshot created with description: '' @ d @ '' and tags: '' @ str_tags tgs"
      let ?st3 = "emit (LogInfo ?msg) (emit (Print (''     '' @ ?msg)) (st'\<lparr>current_snap := Some r\<rparr>))"
      have cs: "create_step env vol d tgs st = ?st3\<lparr>total_creates := total_creates ?st3 + 1\<rparr>"
        using accepted(3) run Return by (simp add: create_step_def Let_def)
      from ex Return obtain ext where ext: "trace st' = trace st @ ext" "list_all Q ext"
        by (auto simp: extends_def)
      have ex2: "extends Q st (?st3\<lparr>total_creates := total_creates ?st3 + 1\<rparr>)"
        using ext assms by (simp add: extends_def harmless_simps)
      have vc: "view_create (?st3\<lparr>total_creates := total_creates ?st3 + 1\<rparr>) = view_create st"
        using fr(1) Return by (simp add: views)
      have tc: "total_creates (?st3\<lparr>total_creates := total_creates ?st3 + 1\<rparr>) = total_creates st + 1"
        using fr(2) Return by simp
      have cur: "current_snap (?st3\<lparr>total_creates := total_creates ?st3 + 1\<rparr>) = Some r"
        by simp
      show ?thesis
        unfolding cs using vc ex2 ids tc cur accepted(1) by simp
    qed
  qed
  then show "view_create (create_step env vol d tgs st) = view_create st"
    and "extends Q st (create_step env vol d tgs st)"
    and "\<not> rejects env (trace st) (CreateSnapshot vol d) \<Longrightarrow>
          \<exists>cs. current_snap (create_step env vol d tgs st) = Some cs \<and> volume_id cs = vol
                \<and> snap_id cs = fresh_id env (trace st)"
    and "rejects env (trace st) (CreateSnapshot vol d) \<Longrightarrow>
           current_snap (create_step env vol d tgs st) = current_snap st
           \<and> total_creates (create_step env vol d tgs st) = total_creates st
           \<and> src_region (create_step env vol d tgs st) = src_region st"
    and "total_creates (create_step env vol d tgs st) = total_creates st + 1
          \<and> \<not> rejects env (trace st) (CreateSnapshot vol d)
        \<or> total_creates (create_step env vol d tgs st) = total_creates st
          \<and> (\<exists>e. PrintError e \<in> set (trace (create_step env vol d tgs st))
                  \<and> (e = ProviderError (CreateSnapshot vol d)
                       \<or> (\<exists>a k v. e = ProviderError (AddTag a k v))))"
    by blast+
qed

lemmas views2 = views view_poll_def

lemma extends_mono: "extends Q st st' \<Longrightarrow> (\<And>e. Q e \<Longrightarrow> Q' e) \<Longrightarrow> extends Q' st st'"
  by (auto simp: extends_def list_all_iff)

lemma before_create_facts:
  assumes "harmless Q"
  shows "view_tags (state_of (before_create env vol st)) = view_tags (st\<lparr>count_total := count_total st + 1\<rparr>)"
    and "src_region (state_of (before_create env vol st)) = src_region st"
    and "extends Q st (state_of (before_create env vol st))"
    and "\<And>e st1. before_create env vol st = Raised e st1 \<Longrightarrow> e = ProviderError (GetAllTags vol)"
proof -
  let ?st0 = "emit (LogInfo (''Volume:'' @ vol)) (st\<lparr>count_total := count_total st + 1\<rparr>)"
  have ex0: "extends Q st ?st0"
    using assms by (simp add: extends_def harmless_simps)
  show "view_tags (state_of (before_create env vol st)) = view_tags (st\<lparr>count_total := count_total st + 1\<rparr>)"
    unfolding before_create_def
    by (cases rule: get_resource_tags_cases[of vol env ?st0]) (simp_all add: views)
  show "src_region (state_of (before_create env vol st)) = src_region st"
    unfolding before_create_def
    by (cases rule: get_resource_tags_cases[of vol env ?st0]) simp_all
  show "extends Q st (state_of (before_create env vol st))"
    unfolding before_create_def
    using assms
    by (cases rule: get_resource_tags_cases[of vol env ?st0]) (simp_all add: extends_def harmless_simps)
  show "\<And>e st1. before_create env vol st = Raised e st1 \<Longrightarrow> e = ProviderError (GetAllTags vol)"
    unfolding before_create_def
    by (cases rule: get_resource_tags_cases[of vol env ?st0]) simp_all
qed

lemma snapshot_phase_eq:
  "snapshot_phase env p vol st =
     (case before_create env vol st of
        Raised e st1 \<Rightarrow> Raised e st1
      | Return tgs st1 \<Rightarrow>
          Return (tgs, make_description env p vol (trace st1))
            (create_step env vol (make_description env p vol (trace st1)) tgs st1))"
  by (simp add: snapshot_phase_def before_create_def Let_def split: result.splits)

lemma poll_once_cases:
  obtains (rejected) "rejects env (trace st @ [Sleep 5]) (UpdateSnapshot (snap_id cs))"
      "poll_once env cs st
         = Raised (ProviderError (UpdateSnapshot (snap_id cs)))
             (emit (Call (UpdateSnapshot (snap_id cs))) (emit (Sleep 5) st))"
  | (accepted) "\<not> rejects env (trace st @ [Sleep 5]) (UpdateSnapshot (snap_id cs))"
      "poll_once env cs st
         = Return ()
            (emit (Print (''     '' @ status_at env (snap_id cs) (ticks st)))
               ((emit (Call (UpdateSnapshot (snap_id cs))) (emit (Sleep 5) st))
                  \<lparr>ticks := ticks st + 1,
                    current_snap := Some (cs\<lparr>status := status_at env (snap_id cs) (ticks st)\<rparr>)\<rparr>))"
  by (cases rule: provider_call_cases[of env "emit (Sleep 5) st" "UpdateSnapshot (snap_id cs)"])
     (simp_all add: poll_once_def)

lemma poll_once_facts:
  shows "view_poll (state_of (poll_once env cs st)) = view_poll st"
    and "extends (poll_event (snap_id cs)) st (state_of (poll_once env cs st))"
    and "\<And>u st1. poll_once env cs st = Return u st1 \<Longrightarrow>
            current_snap st1 = Some (cs\<lparr>status := status_at env (snap_id cs) (ticks st)\<rparr>)
            \<and> ticks st1 = ticks st + 1"
    and "\<And>e st1. poll_once env cs st = Raised e st1 \<Longrightarrow>
            e = ProviderError (UpdateSnapshot (snap_id cs)) \<and> current_snap st1 = current_snap st
            \<and> ticks st1 = ticks st"
proof -
  show "view_poll (state_of (poll_once env cs st)) = view_poll st"
    by (cases rule: poll_once_cases[of env st cs]) (simp_all add: views2)
  show "extends (poll_event (snap_id cs)) st (state_of (poll_once env cs st))"
    by (cases rule: poll_once_cases[of env st cs]) (simp_all add: extends_def poll_event_def)
  show "\<And>u st1. poll_once env cs st = Return u st1 \<Longrightarrow>
            current_snap st1 = Some (cs\<lparr>status := status_at env (snap_id cs) (ticks st)\<rparr>)
            \<and> ticks st1 = ticks st + 1"
    by (cases rule: poll_once_cases[of env st cs]) auto
  show "\<And>e st1. poll_once env cs st = Raised e st1 \<Longrightarrow>
            e = ProviderError (UpdateSnapshot (snap_id cs)) \<and> current_snap st1 = current_snap st
            \<and> ticks st1 = ticks st"
    by (cases rule: poll_once_cases[of env st cs]) auto
qed


lemma await_facts:
  assumes "await_completed env st = Some res"
  shows "view_poll (state_of res) = view_poll st
     \<and> (\<forall>cs. current_snap st = Some cs \<longrightarrow> extends (poll_event (snap_id cs)) st (state_of res))
     \<and> (current_snap st = None \<longrightarrow> res = Raised (NameError ''current_snap'') st)
     \<and> map_option (\<lambda>s. (snap_id s, volume_id s)) (current_snap (state_of res))
         = map_option (\<lambda>s. (snap_id s, volume_id s)) (current_snap st)
     \<and> (\<forall>u st'. res = Return u st' \<longrightarrow> (\<exists>cs. current_snap st' = Some cs \<and> status cs = ''completed''))
     \<and> (\<forall>e st'. res = Raised e st' \<longrightarrow>
           e = NameError ''current_snap'' \<and> current_snap st = None
           \<or> (\<exists>cs. current_snap st = Some cs \<and> e = ProviderError (UpdateSnapshot (snap_id cs))))
     \<and> ticks st \<le> ticks (state_of res)"
proof -
  let ?P = "\<lambda>(env::env) st res. view_poll (state_of res) = view_poll st
     \<and> (\<forall>cs. current_snap st = Some cs \<longrightarrow> extends (poll_event (snap_id cs)) st (state_of res))
     \<and> (current_snap st = None \<longrightarrow> res = Raised (NameError ''current_snap'') st)
     \<and> map_option (\<lambda>s. (snap_id s, volume_id s)) (current_snap (state_of res))
         = map_option (\<lambda>s. (snap_id s, volume_id s)) (current_snap st)
     \<and> (\<forall>u st'. res = Return u st' \<longrightarrow> (\<exists>cs. current_snap st' = Some cs \<and> status cs = ''completed''))
     \<and> (\<forall>e st'. res = Raised e st' \<longrightarrow>
           e = NameError ''current_snap'' \<and> current_snap st = None
           \<or> (\<exists>cs. current_snap st = Some cs \<and> e = ProviderError (UpdateSnapshot (snap_id cs))))
     \<and> ticks st \<le> ticks (state_of res)"
  have "?P env st res"
  proof (rule await_completed.raw_induct[where P = ?P, OF _ assms])
    fix f :: "env \<Rightarrow> state \<Rightarrow> unit result option" and env st res
    assume IH: "\<And>e s y. f e s = Some y \<Longrightarrow> ?P e s y"
      and body: "(case current_snap st of
                    None \<Rightarrow> Some (Raised (NameError ''current_snap'') st)
                  | Some cs \<Rightarrow>
                      if status cs = ''completed'' then Some (Return () st)
                      else case poll_once env cs st of
                             Return u st1 \<Rightarrow> f env st1
                           | Raised e st1 \<Rightarrow> Some (Raised e st1)) = Some res"
    show "?P env st res"
    proof (cases "current_snap st")
      case None
      with body show ?thesis by (auto simp: extends_refl)
    next
      case (Some cs)
      show ?thesis
      proof (cases "status cs = ''completed''")
        case True
        with body Some show ?thesis by (auto simp: extends_refl)
      next
        case False
        note pf = poll_once_facts[where env=env and cs=cs and st=st]
        show ?thesis
        proof (cases "poll_once env cs st")
          case (Raised e st1)
          with body Some False have res: "res = Raised e st1" by simp
          from pf(1,2) pf(4)[OF Raised] Raised show ?thesis
            unfolding res using Some by simp
        next
          case (Return u st1)
          with body Some False have run: "f env st1 = Some res" by simp
          note ih = IH[OF run]
          from pf(3)[OF Return] have cur: "current_snap st1 = Some (cs\<lparr>status := status_at env (snap_id cs) (ticks st)\<rparr>)"
            and tk: "ticks st1 = ticks st + 1" by simp_all
          have e1: "extends (poll_event (snap_id cs)) st st1"
            using pf(2) Return by simp
          have e2: "extends (poll_event (snap_id cs)) st1 (state_of res)"
            using ih cur by simp
          have v: "view_poll (state_of res) = view_poll st"
            using ih pf(1) Return by simp
          have m: "map_option (\<lambda>s. (snap_id s, volume_id s)) (current_snap (state_of res))
                     = map_option (\<lambda>s. (snap_id s, volume_id s)) (current_snap st)"
            using ih cur Some by simp
          have r: "\<forall>e st'. res = Raised e st' \<longrightarrow>
                     e = NameError ''current_snap'' \<and> current_snap st = None
                     \<or> (\<exists>cs. current_snap st = Some cs \<and> e = ProviderError (UpdateSnapshot (snap_id cs)))"
            using ih cur Some by auto
          have t: "ticks st \<le> ticks (state_of res)"
            using ih tk by simp
          from v extends_trans[OF e1 e2] m r t ih Some show ?thesis
            by simp
        qed
      qed
    qed
  qed
  then show ?thesis .
qed

lemma await_unbound: "current_snap st = None \<Longrightarrow> await_completed env st = Some (Raised (NameError ''current_snap'') st)"
  by (subst await_completed.simps) simp

lemma await_done:
  "current_snap st = Some cs \<Longrightarrow> status cs = ''completed'' \<Longrightarrow> await_completed env st = Some (Return () st)"
  by (subst await_completed.simps) simp

lemma await_step:
  "current_snap st = Some cs \<Longrightarrow> status cs \<noteq> ''completed'' \<Longrightarrow>
     await_completed env st =
       (case poll_once env cs st of
          Return u st1 \<Rightarrow> await_completed env st1
        | Raised e st1 \<Rightarrow> Some (Raised e st1))"
  by (subst await_completed.simps) simp

text \<open>The wait ends as soon as some later refresh reports the snapshot as completed.\<close>

lemma await_terminates_aux:
  "current_snap st = Some cs \<Longrightarrow> ticks st \<le> m \<Longrightarrow> m - ticks st = k \<Longrightarrow>
     status_at env (snap_id cs) m = ''completed'' \<Longrightarrow> \<exists>res. await_completed env st = Some res"
proof (induction k arbitrary: st cs)
  case 0
  then have tk: "ticks st = m" by simp
  show ?case
  proof (cases "status cs = ''completed''")
    case True
    then show ?thesis using await_done[OF "0.prems"(1)] by simp
  next
    case False
    show ?thesis
    proof (cases rule: poll_once_cases[of env st cs])
      case rejected
      then show ?thesis using await_step[OF "0.prems"(1) False, of env] by simp
    next
      case accepted
      let ?st1 = "emit (Print (''     '' @ status_at env (snap_id cs) (ticks st)))
               ((emit (Call (UpdateSnapshot (snap_id cs))) (emit (Sleep 5) st))
                  \<lparr>ticks := ticks st + 1,
                    current_snap := Some (cs\<lparr>status := status_at env (snap_id cs) (ticks st)\<rparr>)\<rparr>)"
      have "await_completed env ?st1 = Some (Return () ?st1)"
        using "0.prems"(4) tk by (intro await_done[of _ "cs\<lparr>status := status_at env (snap_id cs) (ticks st)\<rparr>"]) simp_all
      then show ?thesis
        using await_step[OF "0.prems"(1) False, of env] accepted(2) by simp
    qed
  qed
next
  case (Suc k)
  show ?case
  proof (cases "status cs = ''completed''")
    case True
    then show ?thesis using await_done[OF Suc.prems(1)] by simp
  next
    case False
    show ?thesis
    proof (cases rule: poll_once_cases[of env st cs])
      case rejected
      then show ?thesis using await_step[OF Suc.prems(1) False, of env] by simp
    next
      case accepted
      let ?cs1 = "cs\<lparr>status := status_at env (snap_id cs) (ticks st)\<rparr>"
      let ?st1 = "emit (Print (''     '' @ status_at env (snap_id cs) (ticks st)))
               ((emit (Call (UpdateSnapshot (snap_id cs))) (emit (Sleep 5) st))
                  \<lparr>ticks := ticks st + 1, current_snap := Some ?cs1\<rparr>)"
      have "\<exists>res. await_completed env ?st1 = Some res"
        using Suc.prems by (intro Suc.IH[of ?st1 ?cs1]) simp_all
      then show ?thesis
        using await_step[OF Suc.prems(1) False, of env] accepted(2) by simp
    qed
  qed
qed

lemma await_terminates:
  assumes "\<And>cs. current_snap st = Some cs \<Longrightarrow> \<exists>m\<ge>ticks st. status_at env (snap_id cs) m = ''completed''"
  shows "\<exists>res. await_completed env st = Some res"
proof (cases "current_snap st")
  case None
  then show ?thesis by (simp add: await_unbound)
next
  case (Some cs)
  from assms[OF Some] obtain m where "ticks st \<le> m" "status_at env (snap_id cs) m = ''completed''"
    by blast
  then show ?thesis
    using await_terminates_aux[OF Some, of m "m - ticks st" env] by simp
qed

text \<open>The wait returns only if the snapshot is completed, or reports completed at some
  later refresh, or a refresh is rejected.\<close>

lemma await_returns_only_if:
  assumes "await_completed env st = Some res" and "current_snap st = Some cs"
  shows "status cs = ''completed''
     \<or> (\<exists>n\<ge>ticks st. status_at env (snap_id cs) n = ''completed'')
     \<or> (\<exists>tr. rejects env tr (UpdateSnapshot (snap_id cs)))"
proof -
  let ?P = "\<lambda>(env::env) st (res::unit result). \<forall>cs. current_snap st = Some cs \<longrightarrow>
     status cs = ''completed''
     \<or> (\<exists>n\<ge>ticks st. status_at env (snap_id cs) n = ''completed'')
     \<or> (\<exists>tr. rejects env tr (UpdateSnapshot (snap_id cs)))"
  have "?P env st res"
  proof (rule await_completed.raw_induct[where P = ?P, OF _ assms(1)])
    fix f :: "env \<Rightarrow> state \<Rightarrow> unit result option" and env st res
    assume IH: "\<And>e s y. f e s = Some y \<Longrightarrow> ?P e s y"
      and body: "(case current_snap st of
                    None \<Rightarrow> Some (Raised (NameError ''current_snap'') st)
                  | Some cs \<Rightarrow>
                      if status cs = ''completed'' then Some (Return () st)
                      else case poll_once env cs st of
                             Return u st1 \<Rightarrow> f env st1
                           | Raised e st1 \<Rightarrow> Some (Raised e st1)) = Some res"
    show "?P env st res"
    proof (intro allI impI)
      fix cs assume cur: "current_snap st = Some cs"
      show "status cs = ''completed''
         \<or> (\<exists>n\<ge>ticks st. status_at env (snap_id cs) n = ''completed'')
         \<or> (\<exists>tr. rejects env tr (UpdateSnapshot (snap_id cs)))"
      proof (cases "status cs = ''completed''")
        case True
        then show ?thesis by simp
      next
        case False
        show ?thesis
        proof (cases rule: poll_once_cases[of env st cs])
          case rejected
          then show ?thesis by blast
        next
          case accepted
          let ?cs1 = "cs\<lparr>status := status_at env (snap_id cs) (ticks st)\<rparr>"
          let ?st1 = "emit (Print (''     '' @ status_at env (snap_id cs) (ticks st)))
               ((emit (Call (UpdateSnapshot (snap_id cs))) (emit (Sleep 5) st))
                  \<lparr>ticks := ticks st + 1, current_snap := Some ?cs1\<rparr>)"
          from body cur False accepted(2) have "f env ?st1 = Some res" by simp
          from IH[OF this] have
            "status ?cs1 = ''completed''
             \<or> (\<exists>n\<ge>ticks ?st1. status_at env (snap_id ?cs1) n = ''completed'')
             \<or> (\<exists>tr. rejects env tr (UpdateSnapshot (snap_id ?cs1)))"
            by simp
          then consider "status_at env (snap_id cs) (ticks st) = ''completed''"
            | n where "ticks st + 1 \<le> n" "status_at env (snap_id cs) n = ''completed''"
            | tr where "rejects env tr (UpdateSnapshot (snap_id cs))"
            by auto
          then show ?thesis
          proof cases
            case 1
            then show ?thesis by blast
          next
            case 2
            then have "ticks st \<le> n" by simp
            with 2 show ?thesis by blast
          next
            case 3
            then show ?thesis by blast
          qed
        qed
      qed
    qed
  qed
  with assms(2) show ?thesis by blast
qed

lemma await_diverges:
  assumes "current_snap st = Some cs" and "status cs \<noteq> ''completed''"
    and "\<forall>n\<ge>ticks st. status_at env (snap_id cs) n \<noteq> ''completed''"
    and "\<forall>tr. \<not> rejects env tr (UpdateSnapshot (snap_id cs))"
  shows "await_completed env st = None"
proof (cases "await_completed env st")
  case None
  then show ?thesis .
next
  case (Some res)
  from await_returns_only_if[OF Some assms(1)] assms(2,3,4) show ?thesis by blast
qed

lemma copy_to_cases:
  obtains (unbound) "current_snap st = None"
      "copy_to env cfg region d tgs st = Raised (NameError ''current_snap'') st"
  | (copy_rejected) cs where "current_snap st = Some cs"
      "copy_to env cfg region d tgs st
         = Raised (ProviderError (CopySnapshot (ec2_region_name cfg) (snap_id cs)
                                   (''[Copied from '' @ ec2_region_name cfg @ ''] '' @ d)))
             (emit (Call (CopySnapshot (ec2_region_name cfg) (snap_id cs)
                            (''[Copied from '' @ ec2_region_name cfg @ ''] '' @ d))) st)"
  | (tags_rejected) cs new_tags where "current_snap st = Some cs"
      "new_tags = [(''source_snapshot_id'', snap_id cs),
                   (''Name'', or_else (map_of tgs ''Name'') (snap_id cs))]"
      "copy_to env cfg region d tgs st
         = Raised (ProviderError (CreateTags (fresh_id env (trace st)) new_tags))
             (emit (Call (CreateTags (fresh_id env (trace st)) new_tags))
                ((emit (Call (CopySnapshot (ec2_region_name cfg) (snap_id cs)
                               (''[Copied from '' @ ec2_region_name cfg @ ''] '' @ d))) st)
                   \<lparr>dest_region := dest_region st
                      @ [\<lparr>copy_id = fresh_id env (trace st), owned_by_self = True, copy_tags = []\<rparr>]\<rparr>))"
  | (copied) cs new_tags where "current_snap st = Some cs"
      "new_tags = [(''source_snapshot_id'', snap_id cs),
                   (''Name'', or_else (map_of tgs ''Name'') (snap_id cs))]"
      "copy_to env cfg region d tgs st
         = Return ()
            (st\<lparr>total_copies := total_copies st + 1,
                dest_region :=
                  map (\<lambda>c. if copy_id c = fresh_id env (trace st)
                           then c\<lparr>copy_tags := fold (\<lambda>(k, v). AList.update k v) new_tags (copy_tags c)\<rparr>
                           else c)
                    (dest_region st
                       @ [\<lparr>copy_id = fresh_id env (trace st), owned_by_self = True, copy_tags = []\<rparr>]),
                trace := trace st
                  @ [Call (CopySnapshot (ec2_region_name cfg) (snap_id cs)
                             (''[Copied from '' @ ec2_region_name cfg @ ''] '' @ d)),
                     Call (CreateTags (fresh_id env (trace st)) new_tags),
                     Print (''     '' @ ''Snapshot copied to '' @ region),
                     LogInfo (''Snapshot copied to '' @ region)]\<rparr>)"
proof (cases "current_snap st")
  case None
  then show ?thesis using unbound by (simp add: copy_to_def)
next
  case (Some cs)
  let ?c1 = "CopySnapshot (ec2_region_name cfg) (snap_id cs) (''[Copied from '' @ ec2_region_name cfg @ ''] '' @ d)"
  let ?tags = "[(''source_snapshot_id'', snap_id cs), (''Name'', or_else (map_of tgs ''Name'') (snap_id cs))]"
  let ?st2 = "(emit (Call ?c1) st)\<lparr>dest_region := dest_region st
                      @ [\<lparr>copy_id = fresh_id env (trace st), owned_by_self = True, copy_tags = []\<rparr>]\<rparr>"
  show ?thesis
  proof (cases rule: provider_call_cases[of env st ?c1])
    case rejected
    then show ?thesis using copy_rejected[OF Some] Some by (simp add: copy_to_def)
  next
    case accepted
    note a1 = accepted
    show ?thesis
    proof (cases rule: provider_call_cases[of env ?st2 "CreateTags (fresh_id env (trace st)) ?tags"])
      case rejected
      then show ?thesis
        using tags_rejected[OF Some refl] Some a1 by (simp add: copy_to_def Let_def)
    next
      case accepted
      then show ?thesis
        using copied[OF Some refl] Some a1 by (simp add: copy_to_def Let_def emit_def)
    qed
  qed
qed

lemma copy_to_facts:
  shows "view_copy (state_of (copy_to env cfg region d tgs st)) = view_copy st"
    and "current_snap (state_of (copy_to env cfg region d tgs st)) = current_snap st"
    and "dest_conn (state_of (copy_to env cfg region d tgs st)) = dest_conn st"
    and "ticks (state_of (copy_to env cfg region d tgs st)) = ticks st"
    and "harmless Q \<Longrightarrow> extends Q st (state_of (copy_to env cfg region d tgs st))"
    and "extends (\<lambda>e. \<forall>r sid ds. e = Call (CopySnapshot r sid ds) \<longrightarrow>
                    (\<exists>cs. current_snap st = Some cs \<and> sid = snap_id cs \<and> r = ec2_region_name cfg))
           st (state_of (copy_to env cfg region d tgs st))"
proof -
  show "view_copy (state_of (copy_to env cfg region d tgs st)) = view_copy st"
    by (cases rule: copy_to_cases[of st env cfg region d tgs]) (simp_all add: views)
  show "current_snap (state_of (copy_to env cfg region d tgs st)) = current_snap st"
    by (cases rule: copy_to_cases[of st env cfg region d tgs]) simp_all
  show "dest_conn (state_of (copy_to env cfg region d tgs st)) = dest_conn st"
    by (cases rule: copy_to_cases[of st env cfg region d tgs]) simp_all
  show "ticks (state_of (copy_to env cfg region d tgs st)) = ticks st"
    by (cases rule: copy_to_cases[of st env cfg region d tgs]) simp_all
  show "harmless Q \<Longrightarrow> extends Q st (state_of (copy_to env cfg region d tgs st))"
    by (cases rule: copy_to_cases[of st env cfg region d tgs])
       (simp_all add: extends_def harmless_simps)
  show "extends (\<lambda>e. \<forall>r sid ds. e = Call (CopySnapshot r sid ds) \<longrightarrow>
                    (\<exists>cs. current_snap st = Some cs \<and> sid = snap_id cs \<and> r = ec2_region_name cfg))
           st (state_of (copy_to env cfg region d tgs st))"
    by (cases rule: copy_to_cases[of st env cfg region d tgs]) (simp_all add: extends_def)
qed

section \<open>Deletion requests in a trace\<close>

lemma delete_requests_simps [simp]:
  "delete_requests [] = []"
  "delete_requests (Call (DeleteSnapshot s) # es) = s # delete_requests es"
  "delete_requests (Print x # es) = delete_requests es"
  "delete_requests (PrintError er # es) = delete_requests es"
  "delete_requests (Traceback er # es) = delete_requests es"
  "delete_requests (LogInfo x # es) = delete_requests es"
  "delete_requests (LogError x # es) = delete_requests es"
  "delete_requests (LogException er # es) = delete_requests es"
  "delete_requests (Sleep n # es) = delete_requests es"
  "delete_requests (a @ b) = delete_requests a @ delete_requests b"
  by (simp_all add: delete_requests_def)

lemma delete_requests_other [simp]:
  "(\<And>s. c \<noteq> DeleteSnapshot s) \<Longrightarrow> delete_requests (Call c # es) = delete_requests es"
  by (cases c) (auto simp add: delete_requests_def)

lemma delete_requests_set:
  "s \<in> set (delete_requests tr) \<longleftrightarrow> Call (DeleteSnapshot s) \<in> set tr"
proof (induction tr)
  case Nil
  show ?case by simp
next
  case (Cons e tr)
  show ?case
  proof (cases e)
    case (Call c)
    then show ?thesis using Cons by (cases c) (auto simp: delete_requests_def)
  qed (use Cons in \<open>auto simp: delete_requests_def\<close>)
qed

lemma new_events_ext: "trace st' = trace st @ ext \<Longrightarrow> new_events st st' = ext"
  by (simp add: new_events_def)

section \<open>The cascade\<close>

lemma cascade_delete_facts:
  "\<exists>ext. trace (state_of (cascade_delete env cids st)) = trace st @ ext \<and> delete_requests ext = []
     \<and> total_deletes (state_of (cascade_delete env cids st)) = total_deletes st
     \<and> dest_conn (state_of (cascade_delete env cids st)) = dest_conn st
     \<and> view_prune (state_of (cascade_delete env cids st)) = view_prune st
     \<and> src_region (state_of (cascade_delete env cids st)) = src_region st"
proof (induction cids arbitrary: st)
  case Nil
  show ?case by simp
next
  case (Cons cid rest)
  let ?st0 = "emit (LogInfo (''     Deleting copied snapshot: '' @ cid)) st"
  show ?case
  proof (cases rule: provider_call_cases[where env=env and st="?st0" and c="DeleteCopy cid"])
    case rejected
    then show ?thesis by (simp add: views)
  next
    case accepted
    let ?st1 = "(emit (Call (DeleteCopy cid)) ?st0)
                  \<lparr>dest_region := filter (\<lambda>c. copy_id c \<noteq> cid) (dest_region (emit (Call (DeleteCopy cid)) ?st0))\<rparr>"
    have eq: "cascade_delete env (cid # rest) st = cascade_delete env rest ?st1"
      using accepted(2) by simp
    from Cons.IH[of ?st1] obtain ext where
      ext: "trace (state_of (cascade_delete env rest ?st1)) = trace ?st1 @ ext" "delete_requests ext = []"
        "total_deletes (state_of (cascade_delete env rest ?st1)) = total_deletes ?st1"
        "dest_conn (state_of (cascade_delete env rest ?st1)) = dest_conn ?st1"
        "view_prune (state_of (cascade_delete env rest ?st1)) = view_prune ?st1"
        "src_region (state_of (cascade_delete env rest ?st1)) = src_region ?st1"
      by blast
    have "trace (state_of (cascade_delete env (cid # rest) st))
            = trace st @ ([LogInfo (''     Deleting copied snapshot: '' @ cid), Call (DeleteCopy cid)] @ ext)"
      unfolding eq ext(1) by simp
    moreover have "delete_requests ([LogInfo (''     Deleting copied snapshot: '' @ cid), Call (DeleteCopy cid)] @ ext) = []"
      using ext(2) by simp
    moreover have "total_deletes (state_of (cascade_delete env (cid # rest) st)) = total_deletes st"
      unfolding eq ext(3) by simp
    moreover have "dest_conn (state_of (cascade_delete env (cid # rest) st)) = dest_conn st"
      unfolding eq ext(4) by simp
    moreover have "view_prune (state_of (cascade_delete env (cid # rest) st)) = view_prune st"
      unfolding eq ext(5) by (simp add: views)
    moreover have "src_region (state_of (cascade_delete env (cid # rest) st)) = src_region st"
      unfolding eq ext(6) by simp
    ultimately show ?thesis by blast
  qed
qed


section \<open>The deletion loop\<close>

text \<open>One round of the loop: it sends one deletion request, and either raises or goes on
  with the remaining indices after counting the deletion.\<close>

lemma delete_loop_step:
  assumes "i < length dl"
  shows "(\<exists>e st1 ext. delete_loop env dl (i # indices) st = Raised e st1
            \<and> trace st1 = trace st @ ext \<and> delete_requests ext = [dl ! i]
            \<and> total_deletes st1 = total_deletes st \<and> dest_conn st1 = dest_conn st
            \<and> view_prune st1 = view_prune st)
       \<or> (\<exists>st1 ext. delete_loop env dl (i # indices) st = delete_loop env dl indices st1
            \<and> trace st1 = trace st @ ext \<and> delete_requests ext = [dl ! i]
            \<and> total_deletes st1 = total_deletes st + 1 \<and> dest_conn st \<and> dest_conn st1
            \<and> view_prune st1 = view_prune st)"
proof -
  define s where "s = dl ! i"
  define l1 where "l1 = LogInfo (''     Deleting snapshot '' @ description s)"
  define l2 where "l2 = LogInfo (''     Deleting snapshots copies sourced from the original snapshot: '' @ snap_id s)"
  define st0 where "st0 = emit l1 st"
  define st2 where "st2 = (emit (Call (DeleteSnapshot s)) st0)
       \<lparr>src_region := filter (\<lambda>x. snap_id x \<noteq> snap_id s) (src_region (emit (Call (DeleteSnapshot s)) st0))\<rparr>"
  define st3 where "st3 = emit (Call (DescribeSnapshots (snap_id s))) (emit l2 st2)"
  define r where "r = cascade_delete env (copies_of (snap_id s) (dest_region st3)) st3"
  have unfold: "delete_loop env dl (i # indices) st =
     (case provider_call env (DeleteSnapshot s) st0 of
        Raised e st1 \<Rightarrow> Raised e st1
      | Return u st1 \<Rightarrow>
          if \<not> dest_conn st2 then Raised (NameError ''dest_conn'') st2
          else (case provider_call env (DescribeSnapshots (snap_id s)) (emit l2 st2) of
                  Raised e st3 \<Rightarrow> Raised e st3
                | Return u st3' \<Rightarrow>
                   (case r of
                      Raised e st4 \<Rightarrow> Raised e st4
                    | Return u st4 \<Rightarrow>
                        delete_loop env dl indices (st4\<lparr>total_deletes := total_deletes st4 + 1\<rparr>))))"
    using assms
    by (simp add: s_def l1_def l2_def st0_def st2_def st3_def r_def Let_def provider_call_def
             split: result.splits)
  have t2: "trace st2 = trace st @ [l1, Call (DeleteSnapshot s)]"
    "total_deletes st2 = total_deletes st" "dest_conn st2 = dest_conn st"
    "view_prune st2 = view_prune st"
    by (simp_all add: st2_def st0_def views)
  have t3: "trace st3 = trace st @ [l1, Call (DeleteSnapshot s), l2, Call (DescribeSnapshots (snap_id s))]"
    "total_deletes st3 = total_deletes st" "dest_conn st3 = dest_conn st"
    "view_prune st3 = view_prune st"
    by (simp_all add: st3_def t2(1,2,3)) (simp add: st3_def st2_def st0_def views)
  have d1: "delete_requests [l1, Call (DeleteSnapshot s)] = [s]"
    by (simp add: l1_def)
  have d2: "delete_requests [l1, Call (DeleteSnapshot s), l2] = [s]"
    by (simp add: l1_def l2_def)
  have d3: "delete_requests [l1, Call (DeleteSnapshot s), l2, Call (DescribeSnapshots (snap_id s))] = [s]"
    by (simp add: l1_def l2_def)
  show ?thesis
  proof (cases rule: provider_call_cases[where env=env and st=st0 and c="DeleteSnapshot s"])
    case rejected
    have "delete_loop env dl (i # indices) st
            = Raised (ProviderError (DeleteSnapshot s)) (emit (Call (DeleteSnapshot s)) st0)"
      unfolding unfold rejected(2) by simp
    moreover have "trace (emit (Call (DeleteSnapshot s)) st0) = trace st @ [l1, Call (DeleteSnapshot s)]"
      by (simp add: st0_def)
    moreover have "total_deletes (emit (Call (DeleteSnapshot s)) st0) = total_deletes st"
      "dest_conn (emit (Call (DeleteSnapshot s)) st0) = dest_conn st"
      "view_prune (emit (Call (DeleteSnapshot s)) st0) = view_prune st"
      by (simp_all add: st0_def views)
    ultimately show ?thesis using d1 unfolding s_def by blast
  next
    case accepted
    note acc1 = accepted(2)
    show ?thesis
    proof (cases "dest_conn st")
      case False
      have "delete_loop env dl (i # indices) st = Raised (NameError ''dest_conn'') st2"
        unfolding unfold acc1 using False t2(3) by simp
      then show ?thesis using t2 d1 unfolding s_def by blast
    next
      case True
      show ?thesis
      proof (cases rule: provider_call_cases[where env=env and st="emit l2 st2"
                           and c="DescribeSnapshots (snap_id s)"])
        case rejected
        have "delete_loop env dl (i # indices) st
                = Raised (ProviderError (DescribeSnapshots (snap_id s))) st3"
          unfolding unfold acc1 rejected(2) st3_def using True t2(3) by simp
        then show ?thesis using t3 d3 unfolding s_def by blast
      next
        case accepted
        from cascade_delete_facts[of env "copies_of (snap_id s) (dest_region st3)" st3]
        obtain ext where ext: "trace (state_of r) = trace st3 @ ext" "delete_requests ext = []"
            "total_deletes (state_of r) = total_deletes st3" "dest_conn (state_of r) = dest_conn st3"
            "view_prune (state_of r) = view_prune st3"
          unfolding r_def by blast
        let ?ext = "[l1, Call (DeleteSnapshot s), l2, Call (DescribeSnapshots (snap_id s))] @ ext"
        have tr: "trace (state_of r) = trace st @ ?ext"
          unfolding ext(1) t3(1) by simp
        have dr: "delete_requests ?ext = [s]"
          using d3 ext(2) by (simp only: delete_requests_simps(10)) simp
        show ?thesis
        proof (cases r)
          case (Raised e st4)
          have "delete_loop env dl (i # indices) st = Raised e st4"
            unfolding unfold acc1 accepted(2) Raised using True t2(3) by simp
          moreover have "trace st4 = trace st @ ?ext" "total_deletes st4 = total_deletes st"
             "dest_conn st4 = dest_conn st" "view_prune st4 = view_prune st"
            using tr ext(3,4,5) t3(2,3,4) Raised by simp_all
          ultimately show ?thesis using dr unfolding s_def by blast
        next
          case (Return u st4)
          let ?st5 = "st4\<lparr>total_deletes := total_deletes st4 + 1\<rparr>"
          have "delete_loop env dl (i # indices) st = delete_loop env dl indices ?st5"
            unfolding unfold acc1 accepted(2) Return using True t2(3) by simp
          moreover have "trace ?st5 = trace st @ ?ext" "total_deletes ?st5 = total_deletes st + 1"
             "dest_conn ?st5"
            using tr ext(3,4) t3(2,3) Return True by simp_all
          moreover have "view_prune ?st5 = view_prune st"
            using ext(5) t3(4) Return by (simp add: views)
          ultimately show ?thesis using dr True unfolding s_def by blast
        qed
      qed
    qed
  qed
qed



section \<open>The retention step of one volume\<close>

lemma candidate_branches:
  "candidate p s =
     (startswith (description s) ''week_snapshot'' \<and> p = Week
      \<or> startswith (description s) ''day_snapshot'' \<and> p = Day
      \<or> startswith (description s) ''month_snapshot'' \<and> p = Month)"
  by (cases p) (simp_all add: candidate_def)

lemma classify_Cons:
  "classify p (snap # rest) =
     (if candidate p snap then (snap # fst (classify p rest), snd (classify p rest))
      else (fst (classify p rest),
            LogInfo (''     Skipping, not added to deletelist: '' @ description snap)
              # snd (classify p rest)))"
  unfolding candidate_branches
  by (simp only: classify.simps Let_def case_prod_beta) simp

lemma classify_fst: "fst (classify p snaps) = filter (candidate p) snaps"
  by (induction snaps) (simp_all only: classify_Cons classify.simps filter.simps fst_conv if_distrib[of fst] split: if_splits)

lemma classify_snd:
  "snd (classify p snaps)
     = map (\<lambda>s. LogInfo (''     Skipping, not added to deletelist: '' @ description s))
         (filter (\<lambda>s. \<not> candidate p s) snaps)"
proof (induction snaps)
  case Nil
  show ?case by simp
next
  case (Cons a snaps)
  show ?case
    by (cases "candidate p a") (simp_all only: classify_Cons Cons.IH filter.simps list.map snd_conv if_True if_False not_True_eq_False not_False_eq_True)
qed

lemma delete_requests_LogInfo [simp]: "delete_requests (map (\<lambda>s. LogInfo (f s)) xs) = []"
  by (induction xs) simp_all

lemma log_deletelist_facts:
  "\<exists>ext. trace (log_deletelist dl s) = trace s @ ext \<and> delete_requests ext = []
     \<and> total_deletes (log_deletelist dl s) = total_deletes s
     \<and> dest_conn (log_deletelist dl s) = dest_conn s
     \<and> view_prune (log_deletelist dl s) = view_prune s
     \<and> src_region (log_deletelist dl s) = src_region s
     \<and> dest_region (log_deletelist dl s) = dest_region s"
proof (induction dl arbitrary: s)
  case Nil
  show ?case by (simp add: log_deletelist_def)
next
  case (Cons a dl)
  let ?s1 = "emit (LogInfo (start_time a)) (emit (LogInfo (''Snapshot:'' @ snap_id a)) s)"
  have eq: "log_deletelist (a # dl) s = log_deletelist dl ?s1"
    by (simp add: log_deletelist_def)
  from Cons.IH[of ?s1] obtain ext where
    ext: "trace (log_deletelist dl ?s1) = trace ?s1 @ ext" "delete_requests ext = []"
      "total_deletes (log_deletelist dl ?s1) = total_deletes ?s1"
      "dest_conn (log_deletelist dl ?s1) = dest_conn ?s1"
      "view_prune (log_deletelist dl ?s1) = view_prune ?s1"
      "src_region (log_deletelist dl ?s1) = src_region ?s1"
      "dest_region (log_deletelist dl ?s1) = dest_region ?s1"
    by blast
  have "trace (log_deletelist (a # dl) s)
          = trace s @ ([LogInfo (''Snapshot:'' @ snap_id a), LogInfo (start_time a)] @ ext)"
    unfolding eq ext(1) by simp
  moreover have "delete_requests ([LogInfo (''Snapshot:'' @ snap_id a), LogInfo (start_time a)] @ ext) = []"
    using ext(2) by simp
  moreover have "total_deletes (log_deletelist (a # dl) s) = total_deletes s"
    "dest_conn (log_deletelist (a # dl) s) = dest_conn s"
    "src_region (log_deletelist (a # dl) s) = src_region s"
    "dest_region (log_deletelist (a # dl) s) = dest_region s"
    unfolding eq ext(3,4,6,7) by simp_all
  moreover have "view_prune (log_deletelist (a # dl) s) = view_prune s"
    unfolding eq ext(5) by (simp add: views)
  ultimately show ?case by blast
qed


lemma vol_snapshots_accepted:
  "\<not> rejects env (trace st) (GetAllSnapshots vol) \<Longrightarrow>
     vol_snapshots env vol st = Return (listed vol st) (emit (Call (GetAllSnapshots vol)) st)"
  by (simp add: vol_snapshots_def provider_call_def listed_def)

lemma vol_snapshots_rejected:
  "rejects env (trace st) (GetAllSnapshots vol) \<Longrightarrow>
     vol_snapshots env vol st
       = Raised (ProviderError (GetAllSnapshots vol)) (emit (Call (GetAllSnapshots vol)) st)"
  by (simp add: vol_snapshots_def provider_call_def)

text \<open>The state in which the deletion loop of a volume starts.\<close>

lemma prune_phase_accepted:
  assumes "\<not> rejects env (trace st) (GetAllSnapshots vol)"
  shows "\<exists>st2 pre. trace st2 = trace st @ pre \<and> delete_requests pre = []
            \<and> total_deletes st2 = total_deletes st \<and> dest_conn st2 = dest_conn st
            \<and> view_prune st2 = view_prune st \<and> src_region st2 = src_region st
            \<and> dest_region st2 = dest_region st
            \<and> prune_phase env cfg p vol st =
                (case delete_loop env (sort_key date_compare (candidates p vol st))
                        (delta_range (sort_key date_compare (candidates p vol st)) (keep_of cfg p)) st2 of
                   Raised e st3 \<Rightarrow> Raised e st3
                 | Return u st3 \<Rightarrow> Return () (emit (Sleep 3) st3))"
proof -
  let ?st1 = "emit (Call (GetAllSnapshots vol)) st"
  let ?st1' = "?st1\<lparr>trace := trace ?st1 @ snd (classify p (listed vol st))\<rparr>"
  let ?st2 = "log_deletelist (candidates p vol st) ?st1'"
  from log_deletelist_facts[of "candidates p vol st" ?st1'] obtain ext where
    ext: "trace ?st2 = trace ?st1' @ ext" "delete_requests ext = []"
      "total_deletes ?st2 = total_deletes ?st1'" "dest_conn ?st2 = dest_conn ?st1'"
      "view_prune ?st2 = view_prune ?st1'" "src_region ?st2 = src_region ?st1'"
      "dest_region ?st2 = dest_region ?st1'"
    by blast
  let ?pre = "[Call (GetAllSnapshots vol)] @ snd (classify p (listed vol st)) @ ext"
  have "trace ?st2 = trace st @ ?pre"
    unfolding ext(1) by simp
  moreover have "delete_requests ?pre = []"
    using ext(2) by (simp add: classify_snd)
  moreover have "total_deletes ?st2 = total_deletes st" "dest_conn ?st2 = dest_conn st"
    "src_region ?st2 = src_region st" "dest_region ?st2 = dest_region st"
    unfolding ext(3,4,6,7) by simp_all
  moreover have "view_prune ?st2 = view_prune st"
    unfolding ext(5) by (simp add: views)
  moreover have "prune_phase env cfg p vol st =
                (case delete_loop env (sort_key date_compare (candidates p vol st))
                        (delta_range (sort_key date_compare (candidates p vol st)) (keep_of cfg p)) ?st2 of
                   Raised e st3 \<Rightarrow> Raised e st3
                 | Return u st3 \<Rightarrow> Return () (emit (Sleep 3) st3))"
    by (simp add: prune_phase_def vol_snapshots_accepted[OF assms] Let_def classify_fst candidates_def)
  ultimately show ?thesis by blast
qed






lemma await_view: "await_completed env st = Some res \<Longrightarrow> view_poll (state_of res) = view_poll st"
  by (drule await_facts) (erule conjunct1)

lemma await_ids:
  "await_completed env st = Some res \<Longrightarrow>
     map_option (\<lambda>s. (snap_id s, volume_id s)) (current_snap (state_of res))
       = map_option (\<lambda>s. (snap_id s, volume_id s)) (current_snap st)"
  by (drule await_facts) blast

lemma await_return:
  "await_completed env st = Some (Return u st') \<Longrightarrow>
     \<exists>cs. current_snap st' = Some cs \<and> status cs = ''completed''"
  by (drule await_facts) blast

lemma await_ticks: "await_completed env st = Some res \<Longrightarrow> ticks st \<le> ticks (state_of res)"
  by (drule await_facts) blast

lemma await_raised:
  "await_completed env st = Some (Raised e st') \<Longrightarrow>
     e = NameError ''current_snap'' \<and> current_snap st = None
     \<or> (\<exists>cs. current_snap st = Some cs \<and> e = ProviderError (UpdateSnapshot (snap_id cs)))"
  by (drule await_facts) blast

lemma await_poll_events:
  "await_completed env st = Some res \<Longrightarrow> current_snap st = Some cs \<Longrightarrow>
     extends (poll_event (snap_id cs)) st (state_of res)"
  by (drule await_facts) blast

lemma await_unbound_res:
  "await_completed env st = Some res \<Longrightarrow> current_snap st = None \<Longrightarrow>
     res = Raised (NameError ''current_snap'') st"
  by (drule await_facts) blast

lemma view_poll_fields:
  assumes "view_poll st1 = view_poll st"
  shows "outer st1 = outer st" "total_creates st1 = total_creates st" "total_copies st1 = total_copies st"
    "total_deletes st1 = total_deletes st" "dest_conn st1 = dest_conn st" "src_region st1 = src_region st"
    "dest_region st1 = dest_region st"
  using assms unfolding view_poll_def prod.inject by blast+

lemma view_copy_intro:
  "outer st1 = outer st \<Longrightarrow> total_creates st1 = total_creates st \<Longrightarrow> total_deletes st1 = total_deletes st
    \<Longrightarrow> src_region st1 = src_region st \<Longrightarrow> view_copy st1 = view_copy st"
  unfolding view_copy_def prod.inject by blast

lemma view_copy_fields:
  assumes "view_copy st1 = view_copy st"
  shows "outer st1 = outer st" "total_creates st1 = total_creates st"
    "total_deletes st1 = total_deletes st" "src_region st1 = src_region st"
  using assms unfolding view_copy_def prod.inject by blast+

lemma view_copy_dest_conn: "view_copy (st\<lparr>dest_conn := b\<rparr>) = view_copy st"
  by (simp add: view_copy_def outer_def)

lemma view_poll_copy':
  assumes "view_poll st1 = view_poll st"
  shows "view_copy st1 = view_copy st"
  using view_poll_fields(1,2,4,6)[OF assms] by (rule view_copy_intro)

lemma view_poll_copy:
  assumes "view_poll st1 = view_poll st"
  shows "view_copy (st1\<lparr>dest_conn := b\<rparr>) = view_copy st"
  using view_copy_dest_conn[of b st1] view_poll_copy'[OF assms] by (rule trans)

lemma copy_step_SomeE:
  assumes "copy_step env cfg region d tgs st = Some res"
  shows "(\<exists>e st1. await_completed env st = Some (Raised e st1) \<and> res = Raised e st1)
       \<or> (\<exists>st1. await_completed env st = Some (Return () st1)
              \<and> res = copy_to env cfg region d tgs (st1\<lparr>dest_conn := True\<rparr>))"
  using assms by (auto simp: copy_step_def split: option.splits result.splits)

lemma poll_event_harmless: "harmless Q \<Longrightarrow> poll_event sid e \<Longrightarrow> Q e"
  by (auto simp: poll_event_def harmless_simps)

lemma await_extends:
  assumes "await_completed env st = Some res" and "\<And>sid e. poll_event sid e \<Longrightarrow> Q e"
  shows "extends Q st (state_of res)"
proof (cases "current_snap st")
  case None
  from await_unbound_res[OF assms(1) None] show ?thesis by (simp add: extends_refl)
next
  case (Some cs)
  from await_poll_events[OF assms(1) Some] show ?thesis
    by (rule extends_mono) (rule assms(2))
qed

lemma extends_dest_conn: "extends Q (st1\<lparr>dest_conn := b\<rparr>) st2 \<Longrightarrow> extends Q st1 st2"
  by (simp add: extends_def)

lemma copy_step_view:
  assumes "copy_step env cfg region d tgs st = Some res"
  shows "view_copy (state_of res) = view_copy st"
  using copy_step_SomeE[OF assms]
proof (elim disjE exE conjE)
  fix e st1 assume a: "await_completed env st = Some (Raised e st1)" "res = Raised e st1"
  from await_view[OF a(1)] have "view_poll st1 = view_poll st" by simp
  then show ?thesis unfolding a(2) state_of.simps by (rule view_poll_copy')
next
  fix st1 assume a: "await_completed env st = Some (Return () st1)"
     "res = copy_to env cfg region d tgs (st1\<lparr>dest_conn := True\<rparr>)"
  from await_view[OF a(1)] have "view_poll st1 = view_poll st" by simp
  then have "view_copy (st1\<lparr>dest_conn := True\<rparr>) = view_copy st"
    by (rule view_poll_copy)
  then show ?thesis
    unfolding a(2) by (simp only: copy_to_facts(1))
qed

lemma copy_step_extends:
  assumes "copy_step env cfg region d tgs st = Some res" and h: "harmless Q"
  shows "extends Q st (state_of res)"
  using copy_step_SomeE[OF assms(1)]
proof (elim disjE exE conjE)
  fix e st1 assume a: "await_completed env st = Some (Raised e st1)" "res = Raised e st1"
  from await_extends[OF a(1), of Q] poll_event_harmless[OF h] show ?thesis
    unfolding a(2) by blast
next
  fix st1 assume a: "await_completed env st = Some (Return () st1)"
     "res = copy_to env cfg region d tgs (st1\<lparr>dest_conn := True\<rparr>)"
  have e1: "extends Q st (state_of (Return () st1))"
    using await_extends[OF a(1), of Q] poll_event_harmless[OF h] by blast
  then have e1: "extends Q st st1" by simp
  have e2: "extends Q st1 (state_of res)"
    unfolding a(2) by (rule extends_dest_conn[where b=True]) (rule copy_to_facts(5)[OF h])
  from extends_trans[OF e1 e2] show ?thesis .
qed

lemma copy_step_ids:
  assumes "copy_step env cfg region d tgs st = Some res"
  shows "map_option (\<lambda>s. (snap_id s, volume_id s)) (current_snap (state_of res))
           = map_option (\<lambda>s. (snap_id s, volume_id s)) (current_snap st)"
  using copy_step_SomeE[OF assms]
proof (elim disjE exE conjE)
  fix e st1 assume a: "await_completed env st = Some (Raised e st1)" "res = Raised e st1"
  from await_ids[OF a(1)] show ?thesis unfolding a(2) .
next
  fix st1 assume a: "await_completed env st = Some (Return () st1)"
     "res = copy_to env cfg region d tgs (st1\<lparr>dest_conn := True\<rparr>)"
  have "current_snap (state_of res) = current_snap st1"
    unfolding a(2) by (simp only: copy_to_facts(2)) simp
  with await_ids[OF a(1)] show ?thesis by simp
qed

lemma copy_step_ticks:
  assumes "copy_step env cfg region d tgs st = Some res"
  shows "ticks st \<le> ticks (state_of res)"
  using copy_step_SomeE[OF assms]
proof (elim disjE exE conjE)
  fix e st1 assume a: "await_completed env st = Some (Raised e st1)" "res = Raised e st1"
  from await_ticks[OF a(1)] show ?thesis unfolding a(2) .
next
  fix st1 assume a: "await_completed env st = Some (Return () st1)"
     "res = copy_to env cfg region d tgs (st1\<lparr>dest_conn := True\<rparr>)"
  have "ticks (state_of res) = ticks st1"
    unfolding a(2) by (simp only: copy_to_facts(4)) simp
  with await_ticks[OF a(1)] show ?thesis by simp
qed

lemma copy_step_dest_conn:
  assumes "copy_step env cfg region d tgs st = Some res"
  shows "dest_conn (state_of res) \<longleftrightarrow> dest_conn st \<or> (\<exists>u st1. await_completed env st = Some (Return u st1))"
  using copy_step_SomeE[OF assms]
proof (elim disjE exE conjE)
  fix e st1 assume a: "await_completed env st = Some (Raised e st1)" "res = Raised e st1"
  from await_view[OF a(1)] have "view_poll st1 = view_poll st" by simp
  then have "dest_conn st1 = dest_conn st"
    by (rule view_poll_fields(5))
  then show ?thesis unfolding a(2) using a(1) by simp
next
  fix st1 assume a: "await_completed env st = Some (Return () st1)"
     "res = copy_to env cfg region d tgs (st1\<lparr>dest_conn := True\<rparr>)"
  have "dest_conn (state_of res)"
    unfolding a(2) by (simp only: copy_to_facts(3)) simp
  then show ?thesis using a(1) by blast
qed

text \<open>A copy request is sent only after the wait has returned with a completed snapshot,
  and it names that snapshot.\<close>

lemma extendsE:
  assumes "extends Q st st'"
  obtains ext where "trace st' = trace st @ ext" "\<forall>e\<in>set ext. Q e"
  using assms unfolding extends_def list_all_iff by blast

lemma copy_step_copy_request:
  assumes "copy_step env cfg region d tgs st = Some res"
    and "Call (CopySnapshot r sid ds) \<in> set (new_events st (state_of res))"
  shows "\<exists>st1 cs. await_completed env st = Some (Return () st1) \<and> current_snap st1 = Some cs
           \<and> status cs = ''completed'' \<and> sid = snap_id cs
           \<and> map_option snap_id (current_snap st) = Some sid"
  using copy_step_SomeE[OF assms(1)]
proof (elim disjE exE conjE)
  fix e st1 assume a: "await_completed env st = Some (Raised e st1)" "res = Raised e st1"
  have "extends (\<lambda>e. \<forall>r sid ds. e \<noteq> Call (CopySnapshot r sid ds)) st (state_of res)"
    by (rule await_extends[OF a(1)[folded a(2)]]) (auto simp: poll_event_def)
  then obtain x where x: "trace (state_of res) = trace st @ x"
      "\<forall>e\<in>set x. \<forall>r sid ds. e \<noteq> Call (CopySnapshot r sid ds)"
    by (rule extendsE)
  from assms(2) have "Call (CopySnapshot r sid ds) \<in> set x"
    by (simp add: new_events_ext[OF x(1)])
  with x(2) show ?thesis by blast
next
  fix st1 assume a: "await_completed env st = Some (Return () st1)"
     "res = copy_to env cfg region d tgs (st1\<lparr>dest_conn := True\<rparr>)"
  from await_return[OF a(1)] obtain cs where cs: "current_snap st1 = Some cs" "status cs = ''completed''"
    by blast
  have m: "map_option (\<lambda>s. (snap_id s, volume_id s)) (current_snap st1)
             = map_option (\<lambda>s. (snap_id s, volume_id s)) (current_snap st)"
    using await_ids[OF a(1)] by simp
  have "extends (\<lambda>e. \<forall>r sid ds. e \<noteq> Call (CopySnapshot r sid ds)) st (state_of (Return () st1))"
    by (rule await_extends[OF a(1)]) (auto simp: poll_event_def)
  then have "extends (\<lambda>e. \<forall>r sid ds. e \<noteq> Call (CopySnapshot r sid ds)) st st1"
    by simp
  then obtain x1 where x1: "trace st1 = trace st @ x1"
      "\<forall>e\<in>set x1. \<forall>r sid ds. e \<noteq> Call (CopySnapshot r sid ds)"
    by (rule extendsE)
  have "extends (\<lambda>e. \<forall>r sid ds. e = Call (CopySnapshot r sid ds) \<longrightarrow>
                    (\<exists>c. current_snap (st1\<lparr>dest_conn := True\<rparr>) = Some c \<and> sid = snap_id c
                         \<and> r = ec2_region_name cfg))
           (st1\<lparr>dest_conn := True\<rparr>) (state_of res)"
    unfolding a(2) by (rule copy_to_facts(6))
  then obtain x2 where x2: "trace (state_of res) = trace (st1\<lparr>dest_conn := True\<rparr>) @ x2"
    "\<forall>e\<in>set x2. \<forall>r sid ds. e = Call (CopySnapshot r sid ds) \<longrightarrow>
                    (\<exists>c. current_snap (st1\<lparr>dest_conn := True\<rparr>) = Some c \<and> sid = snap_id c
                         \<and> r = ec2_region_name cfg)"
    by (rule extendsE)
  have tr: "trace (state_of res) = trace st @ (x1 @ x2)"
    using x2(1) x1(1) by simp
  from assms(2) have "Call (CopySnapshot r sid ds) \<in> set x1 \<union> set x2"
    by (simp add: new_events_ext[OF tr])
  moreover have "Call (CopySnapshot r sid ds) \<notin> set x1"
    using x1(2) by blast
  ultimately have "Call (CopySnapshot r sid ds) \<in> set x2"
    by blast
  with x2(2) have "\<exists>c. current_snap (st1\<lparr>dest_conn := True\<rparr>) = Some c \<and> sid = snap_id c"
    by blast
  with cs(1) have sid: "sid = snap_id cs"
    by simp
  from m cs(1) have "map_option snap_id (current_snap st) = Some (snap_id cs)"
    by (cases "current_snap st") simp_all
  with a(1) cs sid show ?thesis
    by blast
qed

section \<open>The copy phase of one volume\<close>

lemma copy_phase_none: "\<not> truthy (copy_region_name cfg) \<Longrightarrow> copy_phase env cfg d tgs st = Some st"
  by (simp add: copy_phase_def)

lemma copy_phase_SomeE:
  assumes "copy_phase env cfg d tgs st = Some st'"
  shows "\<not> truthy (copy_region_name cfg) \<and> st' = st
       \<or> truthy (copy_region_name cfg)
          \<and> (\<exists>res. copy_step env cfg (the (copy_region_name cfg)) d tgs st = Some res
                \<and> (case res of Raised e s1 \<Rightarrow> st' = log_exception e s1 | Return u s1 \<Rightarrow> st' = s1))"
  using assms by (auto simp: copy_phase_def split: option.splits result.splits if_splits)

lemma copy_phase_unbound:
  "truthy (copy_region_name cfg) \<Longrightarrow> current_snap st = None \<Longrightarrow>
     copy_phase env cfg d tgs st = Some (log_exception (NameError ''current_snap'') st)"
  by (simp add: copy_phase_def copy_step_def await_unbound)

lemma view_copy_log_exception: "view_copy (log_exception e st) = view_copy st"
  by (simp add: view_copy_def outer_def)

lemma extends_log_exception: "harmless Q \<Longrightarrow> extends Q st (log_exception e st)"
  by (simp add: extends_def harmless_simps)

lemma copy_phase_facts:
  assumes "copy_phase env cfg d tgs st = Some st'"
  shows "view_copy st' = view_copy st"
    and "harmless Q \<Longrightarrow> extends Q st st'"
    and "map_option (\<lambda>s. (snap_id s, volume_id s)) (current_snap st')
           = map_option (\<lambda>s. (snap_id s, volume_id s)) (current_snap st)"
    and "ticks st \<le> ticks st'"
    and "dest_conn st \<Longrightarrow> dest_conn st'"
    and "\<not> truthy (copy_region_name cfg) \<Longrightarrow> st' = st"
proof -
  have "view_copy st' = view_copy st \<and> (harmless Q \<longrightarrow> extends Q st st')
     \<and> map_option (\<lambda>s. (snap_id s, volume_id s)) (current_snap st')
           = map_option (\<lambda>s. (snap_id s, volume_id s)) (current_snap st)
     \<and> ticks st \<le> ticks st' \<and> (dest_conn st \<longrightarrow> dest_conn st')
     \<and> (\<not> truthy (copy_region_name cfg) \<longrightarrow> st' = st)"
    using copy_phase_SomeE[OF assms]
  proof (elim disjE exE conjE)
    assume "\<not> truthy (copy_region_name cfg)" "st' = st"
    then show ?thesis by (simp add: extends_refl)
  next
    fix res
    assume t: "truthy (copy_region_name cfg)"
      and cs: "copy_step env cfg (the (copy_region_name cfg)) d tgs st = Some res"
      and r: "case res of Raised e s1 \<Rightarrow> st' = log_exception e s1 | Return u s1 \<Rightarrow> st' = s1"
    note v = copy_step_view[OF cs] and x = copy_step_extends[OF cs] and i = copy_step_ids[OF cs]
      and k = copy_step_ticks[OF cs] and c = copy_step_dest_conn[OF cs]
    show ?thesis
    proof (cases res)
      case (Raised e s1)
      with r have st': "st' = log_exception e s1" by simp
      have "view_copy st' = view_copy st"
        using v unfolding st' Raised by (simp only: view_copy_log_exception state_of.simps)
      moreover have "harmless Q \<longrightarrow> extends Q st st'"
      proof
        assume h: "harmless Q"
        from x[OF h] have "extends Q st s1" unfolding Raised by simp
        from extends_trans[OF this extends_log_exception[OF h]] show "extends Q st st'"
          unfolding st' .
      qed
      moreover have "map_option (\<lambda>s. (snap_id s, volume_id s)) (current_snap st')
           = map_option (\<lambda>s. (snap_id s, volume_id s)) (current_snap st)"
        using i unfolding st' Raised by simp
      moreover have "ticks st \<le> ticks st'"
        using k unfolding st' Raised by simp
      moreover have "dest_conn st \<longrightarrow> dest_conn st'"
        using c unfolding st' Raised by simp
      ultimately show ?thesis using t by blast
    next
      case (Return u s1)
      with r have st': "st' = s1" by simp
      show ?thesis
        using v x i k c t unfolding st' Return by simp
    qed
  qed
  then show "view_copy st' = view_copy st"
    and "harmless Q \<Longrightarrow> extends Q st st'"
    and "map_option (\<lambda>s. (snap_id s, volume_id s)) (current_snap st')
           = map_option (\<lambda>s. (snap_id s, volume_id s)) (current_snap st)"
    and "ticks st \<le> ticks st'"
    and "dest_conn st \<Longrightarrow> dest_conn st'"
    and "\<not> truthy (copy_region_name cfg) \<Longrightarrow> st' = st"
    by blast+
qed

lemma copy_phase_terminates:
  assumes "\<And>cs. current_snap st = Some cs \<Longrightarrow> \<exists>m\<ge>ticks st. status_at env (snap_id cs) m = ''completed''"
  shows "\<exists>st'. copy_phase env cfg d tgs st = Some st'"
proof -
  from await_terminates[OF assms] obtain res where "await_completed env st = Some res"
    by blast
  then show ?thesis
    by (cases res; cases "copy_to env cfg (the (copy_region_name cfg)) d tgs ((state_of res)\<lparr>dest_conn := True\<rparr>)")
       (simp_all add: copy_phase_def copy_step_def)
qed

section \<open>What the steps of one volume leave alone\<close>

lemma outer_fields:
  assumes "outer st1 = outer st"
  shows "message st1 = message st" "errmsg st1 = errmsg st" "count_errors st1 = count_errors st"
    "count_success st1 = count_success st" "count_total st1 = count_total st"
  using assms unfolding outer_def prod.inject by blast+

lemma view_tags_fields:
  assumes "view_tags st1 = view_tags st"
  shows "outer st1 = outer st" "total_creates st1 = total_creates st" "total_copies st1 = total_copies st"
    "total_deletes st1 = total_deletes st" "current_snap st1 = current_snap st"
    "dest_conn st1 = dest_conn st" "dest_region st1 = dest_region st" "ticks st1 = ticks st"
  using assms unfolding view_tags_def prod.inject by blast+

lemma view_create_fields:
  assumes "view_create st1 = view_create st"
  shows "outer st1 = outer st" "total_copies st1 = total_copies st"
    "total_deletes st1 = total_deletes st" "dest_conn st1 = dest_conn st"
    "dest_region st1 = dest_region st" "ticks st1 = ticks st"
  using assms unfolding view_create_def prod.inject by blast+

lemma view_prune_fields:
  assumes "view_prune st1 = view_prune st"
  shows "outer st1 = outer st" "total_creates st1 = total_creates st" "total_copies st1 = total_copies st"
    "current_snap st1 = current_snap st" "dest_conn st1 = dest_conn st" "ticks st1 = ticks st"
  using assms unfolding view_prune_def prod.inject by blast+

lemma view_tags_create: "view_tags st1 = view_tags st \<Longrightarrow> view_create st1 = view_create st"
  unfolding view_tags_def view_create_def prod.inject by blast

lemma view_create_counted:
  "view_create (st\<lparr>count_total := n\<rparr>)
     = ((message st, errmsg st, count_errors st, count_success st, n),
        total_copies st, total_deletes st, dest_conn st, dest_region st, ticks st)"
  by (simp add: view_create_def outer_def)

text \<open>The snapshot step counts the volume and touches neither the other counters of the
  run, nor the bound connection, nor the destination region, nor the clock of the wait.\<close>

lemma snapshot_phase_view:
  "view_create (state_of (snapshot_phase env p vol st))
     = view_create (st\<lparr>count_total := count_total st + 1\<rparr>)"
proof (cases "before_create env vol st")
  case (Return tgs st1)
  have "view_tags st1 = view_tags (st\<lparr>count_total := count_total st + 1\<rparr>)"
    using before_create_facts(1)[OF harmless_True, of env vol st] unfolding Return by simp
  then have v: "view_create st1 = view_create (st\<lparr>count_total := count_total st + 1\<rparr>)"
    by (rule view_tags_create)
  have "view_create (state_of (snapshot_phase env p vol st))
          = view_create (create_step env vol (make_description env p vol (trace st1)) tgs st1)"
    unfolding snapshot_phase_eq Return by simp
  also have "\<dots> = view_create st1"
    by (rule create_step_facts(1)[OF harmless_True])
  finally show ?thesis using v by (rule trans)
next
  case (Raised e st1)
  have "view_tags st1 = view_tags (st\<lparr>count_total := count_total st + 1\<rparr>)"
    using before_create_facts(1)[OF harmless_True, of env vol st] unfolding Raised by simp
  then have v: "view_create st1 = view_create (st\<lparr>count_total := count_total st + 1\<rparr>)"
    by (rule view_tags_create)
  have "view_create (state_of (snapshot_phase env p vol st)) = view_create st1"
    unfolding snapshot_phase_eq Raised by simp
  then show ?thesis using v by (rule trans)
qed

lemma snapshot_phase_frame:
  shows "message (state_of (snapshot_phase env p vol st)) = message st"
    and "errmsg (state_of (snapshot_phase env p vol st)) = errmsg st"
    and "count_errors (state_of (snapshot_phase env p vol st)) = count_errors st"
    and "count_success (state_of (snapshot_phase env p vol st)) = count_success st"
    and "count_total (state_of (snapshot_phase env p vol st)) = count_total st + 1"
    and "total_copies (state_of (snapshot_phase env p vol st)) = total_copies st"
    and "total_deletes (state_of (snapshot_phase env p vol st)) = total_deletes st"
    and "dest_conn (state_of (snapshot_phase env p vol st)) = dest_conn st"
    and "dest_region (state_of (snapshot_phase env p vol st)) = dest_region st"
    and "ticks (state_of (snapshot_phase env p vol st)) = ticks st"
  using snapshot_phase_view[of env p vol st]
  unfolding view_create_counted unfolding view_create_def outer_def prod.inject by blast+

lemma snapshot_phase_extends:
  assumes "harmless Q"
  shows "extends Q st (state_of (snapshot_phase env p vol st))"
proof (cases "before_create env vol st")
  case (Return tgs st1)
  have "extends Q st st1"
    using before_create_facts(3)[OF assms, of st env vol] unfolding Return by simp
  moreover have "extends Q st1 (create_step env vol (make_description env p vol (trace st1)) tgs st1)"
    by (rule create_step_facts(2)[OF assms])
  ultimately show ?thesis
    unfolding snapshot_phase_eq Return by (simp add: extends_trans)
next
  case (Raised e st1)
  then show ?thesis
    using before_create_facts(3)[OF assms, of st env vol] unfolding snapshot_phase_eq by simp
qed

lemma snapshot_phase_raised:
  "snapshot_phase env p vol st = Raised e st1 \<Longrightarrow> e = ProviderError (GetAllTags vol)"
  unfolding snapshot_phase_eq
  using before_create_facts(4)[OF harmless_True, of env vol st]
  by (cases "before_create env vol st") simp_all

section \<open>The retention step on every path\<close>

lemma delete_loop_index:
  "length dl \<le> i \<Longrightarrow> delete_loop env dl (i # indices) st = Raised IndexError st"
  by simp

lemma delete_loop_general:
  "\<exists>ext. trace (state_of (delete_loop env dl indices st)) = trace st @ ext
     \<and> set (delete_requests ext) \<subseteq> set dl
     \<and> view_prune (state_of (delete_loop env dl indices st)) = view_prune st
     \<and> total_deletes st \<le> total_deletes (state_of (delete_loop env dl indices st))"
proof (induction indices arbitrary: st)
  case Nil
  show ?case by simp
next
  case (Cons i indices)
  show ?case
  proof (cases "i < length dl")
    case False
    then show ?thesis by simp
  next
    case True
    from delete_loop_step[OF True, of env indices st] show ?thesis
    proof (elim disjE exE conjE)
      fix e st1 ext
      assume a: "delete_loop env dl (i # indices) st = Raised e st1" "trace st1 = trace st @ ext"
        "delete_requests ext = [dl ! i]" "total_deletes st1 = total_deletes st"
        "view_prune st1 = view_prune st"
      have "set (delete_requests ext) \<subseteq> set dl"
        using a(3) True by simp
      then show ?thesis
        unfolding a(1) using a(2,4,5) by simp
    next
      fix st1 ext
      assume a: "delete_loop env dl (i # indices) st = delete_loop env dl indices st1"
        "trace st1 = trace st @ ext" "delete_requests ext = [dl ! i]"
        "total_deletes st1 = total_deletes st + 1" "view_prune st1 = view_prune st"
      from Cons.IH[of st1] obtain ext' where
        b: "trace (state_of (delete_loop env dl indices st1)) = trace st1 @ ext'"
           "set (delete_requests ext') \<subseteq> set dl"
           "view_prune (state_of (delete_loop env dl indices st1)) = view_prune st1"
           "total_deletes st1 \<le> total_deletes (state_of (delete_loop env dl indices st1))"
        by blast
      have "trace (state_of (delete_loop env dl (i # indices) st)) = trace st @ (ext @ ext')"
        unfolding a(1) b(1) a(2) by simp
      moreover have "set (delete_requests (ext @ ext')) \<subseteq> set dl"
        using a(3) b(2) True by simp
      moreover have "view_prune (state_of (delete_loop env dl (i # indices) st)) = view_prune st"
        unfolding a(1) b(3) a(5) ..
      moreover have "total_deletes st \<le> total_deletes (state_of (delete_loop env dl (i # indices) st))"
        unfolding a(1) using b(4) a(4) by simp
      ultimately show ?thesis by blast
    qed
  qed
qed

text \<open>Without a bound destination connection the loop stops in its first round.\<close>

lemma delete_loop_unbound:
  assumes "\<not> dest_conn st"
  shows "\<exists>ext. trace (state_of (delete_loop env dl indices st)) = trace st @ ext
     \<and> length (delete_requests ext) \<le> 1
     \<and> total_deletes (state_of (delete_loop env dl indices st)) = total_deletes st"
proof (cases indices)
  case Nil
  then show ?thesis by simp
next
  case (Cons i rest)
  show ?thesis
  proof (cases "i < length dl")
    case False
    then show ?thesis unfolding Cons by simp
  next
    case True
    from delete_loop_step[OF True, of env rest st] assms
    obtain e st1 ext where
      a: "delete_loop env dl (i # rest) st = Raised e st1" "trace st1 = trace st @ ext"
        "delete_requests ext = [dl ! i]" "total_deletes st1 = total_deletes st"
      by blast
    have "length (delete_requests ext) \<le> 1"
      unfolding a(3) by simp
    then show ?thesis
      unfolding Cons a(1) using a(2,4) by simp
  qed
qed

lemma delete_loop_unbound_first:
  assumes "\<not> dest_conn st" and "i < length dl"
    and "\<not> rejects env (trace st @ [LogInfo (''     Deleting snapshot '' @ description (dl ! i))])
            (DeleteSnapshot (dl ! i))"
  shows "delete_loop env dl (i # indices) st
           = Raised (NameError ''dest_conn'')
               ((emit (Call (DeleteSnapshot (dl ! i)))
                   (emit (LogInfo (''     Deleting snapshot '' @ description (dl ! i))) st))
                  \<lparr>src_region := filter (\<lambda>s. snap_id s \<noteq> snap_id (dl ! i)) (src_region st)\<rparr>)"
  using assms by (simp add: provider_call_def Let_def)

lemma prune_phase_rejected:
  "rejects env (trace st) (GetAllSnapshots vol) \<Longrightarrow>
     prune_phase env cfg p vol st
       = Raised (ProviderError (GetAllSnapshots vol)) (emit (Call (GetAllSnapshots vol)) st)"
  by (simp add: prune_phase_def vol_snapshots_rejected)

lemma view_prune_emit: "view_prune (emit e st) = view_prune st"
  by (simp add: view_prune_def outer_def)

lemma prune_phase_general:
  "\<exists>ext. trace (state_of (prune_phase env cfg p vol st)) = trace st @ ext
     \<and> set (delete_requests ext) \<subseteq> set (candidates p vol st)
     \<and> view_prune (state_of (prune_phase env cfg p vol st)) = view_prune st
     \<and> total_deletes st \<le> total_deletes (state_of (prune_phase env cfg p vol st))"
proof (cases "rejects env (trace st) (GetAllSnapshots vol)")
  case True
  have "trace (state_of (prune_phase env cfg p vol st)) = trace st @ [Call (GetAllSnapshots vol)]"
    unfolding prune_phase_rejected[OF True] by simp
  moreover have "set (delete_requests [Call (GetAllSnapshots vol)]) \<subseteq> set (candidates p vol st)"
    by simp
  moreover have "view_prune (state_of (prune_phase env cfg p vol st)) = view_prune st"
    unfolding prune_phase_rejected[OF True] by (simp add: view_prune_emit)
  moreover have "total_deletes st \<le> total_deletes (state_of (prune_phase env cfg p vol st))"
    unfolding prune_phase_rejected[OF True] by simp
  ultimately show ?thesis by blast
next
  case False
  let ?srt = "sort_key date_compare (candidates p vol st)"
  let ?is = "delta_range ?srt (keep_of cfg p)"
  from prune_phase_accepted[OF False, where cfg=cfg and p=p] obtain st2 pre where
    st2: "trace st2 = trace st @ pre" "delete_requests pre = []"
       "total_deletes st2 = total_deletes st" "view_prune st2 = view_prune st"
    and eq: "prune_phase env cfg p vol st =
                (case delete_loop env ?srt ?is st2 of
                   Raised e st3 \<Rightarrow> Raised e st3
                 | Return u st3 \<Rightarrow> Return () (emit (Sleep 3) st3))"
    by blast
  let ?r = "delete_loop env ?srt ?is st2"
  from delete_loop_general[of env ?srt ?is st2] obtain ext where
    f: "trace (state_of ?r) = trace st2 @ ext" "set (delete_requests ext) \<subseteq> set ?srt"
       "view_prune (state_of ?r) = view_prune st2" "total_deletes st2 \<le> total_deletes (state_of ?r)"
    by blast
  have sub: "set (delete_requests ext) \<subseteq> set (candidates p vol st)"
    using f(2) by simp
  show ?thesis
  proof (cases ?r)
    case (Raised e st3)
    have r: "prune_phase env cfg p vol st = Raised e st3"
      unfolding eq Raised by simp
    have "trace (state_of (prune_phase env cfg p vol st)) = trace st @ (pre @ ext)"
      unfolding r using f(1) st2(1) Raised by simp
    moreover have "set (delete_requests (pre @ ext)) \<subseteq> set (candidates p vol st)"
      using sub st2(2) by simp
    moreover have "view_prune (state_of (prune_phase env cfg p vol st)) = view_prune st"
      unfolding r using f(3) st2(4) Raised by simp
    moreover have "total_deletes st \<le> total_deletes (state_of (prune_phase env cfg p vol st))"
      unfolding r using f(4) st2(3) Raised by simp
    ultimately show ?thesis by blast
  next
    case (Return u st3)
    have r: "prune_phase env cfg p vol st = Return () (emit (Sleep 3) st3)"
      unfolding eq Return by simp
    have "trace (state_of (prune_phase env cfg p vol st)) = trace st @ (pre @ ext @ [Sleep 3])"
      unfolding r using f(1) st2(1) Return by simp
    moreover have "set (delete_requests (pre @ ext @ [Sleep 3])) \<subseteq> set (candidates p vol st)"
      using sub st2(2) by simp
    moreover have "view_prune (state_of (prune_phase env cfg p vol st)) = view_prune st"
      unfolding r using f(3) st2(4) Return by (simp add: view_prune_emit)
    moreover have "total_deletes st \<le> total_deletes (state_of (prune_phase env cfg p vol st))"
      unfolding r using f(4) st2(3) Return by simp
    ultimately show ?thesis by blast
  qed
qed

lemma prune_phase_unbound:
  assumes "\<not> dest_conn st"
  shows "\<exists>ext. trace (state_of (prune_phase env cfg p vol st)) = trace st @ ext
     \<and> length (delete_requests ext) \<le> 1
     \<and> total_deletes (state_of (prune_phase env cfg p vol st)) = total_deletes st"
proof (cases "rejects env (trace st) (GetAllSnapshots vol)")
  case True
  have "trace (state_of (prune_phase env cfg p vol st)) = trace st @ [Call (GetAllSnapshots vol)]"
    unfolding prune_phase_rejected[OF True] by simp
  moreover have "length (delete_requests [Call (GetAllSnapshots vol)]) \<le> 1"
    by simp
  moreover have "total_deletes (state_of (prune_phase env cfg p vol st)) = total_deletes st"
    unfolding prune_phase_rejected[OF True] by simp
  ultimately show ?thesis by blast
next
  case False
  let ?srt = "sort_key date_compare (candidates p vol st)"
  let ?is = "delta_range ?srt (keep_of cfg p)"
  from prune_phase_accepted[OF False, where cfg=cfg and p=p] obtain st2 pre where
    st2: "trace st2 = trace st @ pre" "delete_requests pre = []"
       "total_deletes st2 = total_deletes st" "dest_conn st2 = dest_conn st"
    and eq: "prune_phase env cfg p vol st =
                (case delete_loop env ?srt ?is st2 of
                   Raised e st3 \<Rightarrow> Raised e st3
                 | Return u st3 \<Rightarrow> Return () (emit (Sleep 3) st3))"
    by blast
  let ?r = "delete_loop env ?srt ?is st2"
  have "\<not> dest_conn st2"
    using assms st2(4) by simp
  from delete_loop_unbound[OF this, of env ?srt ?is] obtain ext where
    f: "trace (state_of ?r) = trace st2 @ ext" "length (delete_requests ext) \<le> 1"
       "total_deletes (state_of ?r) = total_deletes st2"
    by blast
  show ?thesis
  proof (cases ?r)
    case (Raised e st3)
    have r: "prune_phase env cfg p vol st = Raised e st3"
      unfolding eq Raised by simp
    have "trace (state_of (prune_phase env cfg p vol st)) = trace st @ (pre @ ext)"
      unfolding r using f(1) st2(1) Raised by simp
    moreover have "length (delete_requests (pre @ ext)) \<le> 1"
      using f(2) st2(2) by simp
    moreover have "total_deletes (state_of (prune_phase env cfg p vol st)) = total_deletes st"
      unfolding r using f(3) st2(3) Raised by simp
    ultimately show ?thesis by blast
  next
    case (Return u st3)
    have r: "prune_phase env cfg p vol st = Return () (emit (Sleep 3) st3)"
      unfolding eq Return by simp
    have "trace (state_of (prune_phase env cfg p vol st)) = trace st @ (pre @ ext @ [Sleep 3])"
      unfolding r using f(1) st2(1) Return by simp
    moreover have "length (delete_requests (pre @ ext @ [Sleep 3])) \<le> 1"
      using f(2) st2(2) by simp
    moreover have "total_deletes (state_of (prune_phase env cfg p vol st)) = total_deletes st"
      unfolding r using f(3) st2(3) Return by simp
    ultimately show ?thesis by blast
  qed
qed

text \<open>The first round when the oldest candidate is to be deleted and no destination
  connection is bound: the snapshot is deleted and the name \<^verbatim>\<open>dest_conn\<close> is not found.\<close>

lemma prune_phase_unbound_first:
  assumes "\<not> dest_conn st" and "0 \<le> keep_of cfg p"
    and "keep_of cfg p < int (length (candidates p vol st))"
    and "\<not> rejects env (trace st) (GetAllSnapshots vol)"
    and "\<And>tr s. \<not> rejects env tr (DeleteSnapshot s)"
  shows "\<exists>st3 ext. prune_phase env cfg p vol st = Raised (NameError ''dest_conn'') st3
           \<and> trace st3 = trace st @ ext
           \<and> delete_requests ext = [hd (sort_key date_compare (candidates p vol st))]
           \<and> src_region st3
                = filter (\<lambda>s. snap_id s \<noteq> snap_id (hd (sort_key date_compare (candidates p vol st))))
                    (src_region st)
           \<and> view_prune st3 = view_prune st \<and> total_deletes st3 = total_deletes st
           \<and> dest_region st3 = dest_region st"
proof -
  let ?srt = "sort_key date_compare (candidates p vol st)"
  let ?is = "delta_range ?srt (keep_of cfg p)"
  from prune_phase_accepted[OF assms(4), where cfg=cfg and p=p] obtain st2 pre where
    st2: "trace st2 = trace st @ pre" "delete_requests pre = []"
       "total_deletes st2 = total_deletes st" "dest_conn st2 = dest_conn st"
       "view_prune st2 = view_prune st" "src_region st2 = src_region st"
       "dest_region st2 = dest_region st"
    and eq: "prune_phase env cfg p vol st =
                (case delete_loop env ?srt ?is st2 of
                   Raised e st3 \<Rightarrow> Raised e st3
                 | Return u st3 \<Rightarrow> Return () (emit (Sleep 3) st3))"
    by blast
  have ne: "0 < length ?srt"
    using assms(2,3) by auto
  have "0 < nat (int (length ?srt) - keep_of cfg p)"
    using assms(3) by simp
  then have idx: "?is = 0 # [1 ..< nat (int (length ?srt) - keep_of cfg p)]"
    unfolding delta_range_def by (simp add: upt_conv_Cons)
  have "?srt \<noteq> []"
    using ne by fastforce
  then have hd: "?srt ! 0 = hd ?srt"
    by (rule hd_conv_nth[symmetric])
  let ?l = "LogInfo (''     Deleting snapshot '' @ description (?srt ! 0))"
  let ?st3 = "(emit (Call (DeleteSnapshot (?srt ! 0))) (emit ?l st2))
                \<lparr>src_region := filter (\<lambda>s. snap_id s \<noteq> snap_id (?srt ! 0)) (src_region st2)\<rparr>"
  have "\<not> dest_conn st2"
    using assms(1) st2(4) by simp
  from delete_loop_unbound_first[OF this ne assms(5), where indices="[1 ..< nat (int (length ?srt) - keep_of cfg p)]"]
  have dl: "delete_loop env ?srt ?is st2 = Raised (NameError ''dest_conn'') ?st3"
    unfolding idx .
  have r: "prune_phase env cfg p vol st = Raised (NameError ''dest_conn'') ?st3"
    unfolding eq dl by simp
  have "trace ?st3 = trace st @ (pre @ [?l, Call (DeleteSnapshot (?srt ! 0))])"
    using st2(1) by simp
  moreover have "delete_requests (pre @ [?l, Call (DeleteSnapshot (?srt ! 0))]) = [hd ?srt]"
    using st2(2) hd by simp
  moreover have "src_region ?st3 = filter (\<lambda>s. snap_id s \<noteq> snap_id (hd ?srt)) (src_region st)"
    using st2(6) hd by simp
  moreover have "view_prune ?st3 = view_prune st"
    using st2(5) by (simp add: view_prune_def outer_def)
  moreover have "total_deletes ?st3 = total_deletes st" "dest_region ?st3 = dest_region st"
    using st2(3,7) by simp_all
  ultimately show ?thesis using r by blast
qed

section \<open>One volume\<close>

lemma harmless_no_delete: "harmless (\<lambda>e. \<forall>s. e \<noteq> Call (DeleteSnapshot s))"
  by (simp add: harmless_def)

lemma extends_no_deletes:
  assumes "extends (\<lambda>e. \<forall>s. e \<noteq> Call (DeleteSnapshot s)) st st'"
  shows "\<exists>ext. trace st' = trace st @ ext \<and> delete_requests ext = []"
proof -
  from assms obtain ext where ext: "trace st' = trace st @ ext"
      "\<forall>e\<in>set ext. \<forall>s. e \<noteq> Call (DeleteSnapshot s)"
    by (rule extendsE)
  have "delete_requests ext = []"
  proof (rule ccontr)
    assume "delete_requests ext \<noteq> []"
    then obtain s where "s \<in> set (delete_requests ext)"
      by (cases "delete_requests ext") auto
    then have "Call (DeleteSnapshot s) \<in> set ext"
      by (simp only: delete_requests_set)
    with ext(2) show False by blast
  qed
  with ext(1) show ?thesis by blast
qed

lemma snapshot_phase_quiet:
  "\<exists>ext. trace (state_of (snapshot_phase env p vol st)) = trace st @ ext \<and> delete_requests ext = []"
  by (rule extends_no_deletes) (rule snapshot_phase_extends[OF harmless_no_delete])

lemma copy_phase_quiet:
  "copy_phase env cfg d tgs st = Some st' \<Longrightarrow>
     \<exists>ext. trace st' = trace st @ ext \<and> delete_requests ext = []"
  by (rule extends_no_deletes) (rule copy_phase_facts(2)[OF _ harmless_no_delete])

lemma process_volume_SomeE:
  assumes "process_volume env cfg p vol st = Some res"
  shows "(\<exists>e st1. snapshot_phase env p vol st = Raised e st1 \<and> res = Raised e st1)
       \<or> (\<exists>tgs d st1 st2. snapshot_phase env p vol st = Return (tgs, d) st1
              \<and> copy_phase env cfg d tgs st1 = Some st2 \<and> res = prune_phase env cfg p vol st2)"
  using assms
  by (auto simp: process_volume_def split: result.splits option.splits prod.splits)

lemma outer_counted:
  "outer (st\<lparr>count_total := n\<rparr>) = (message st, errmsg st, count_errors st, count_success st, n)"
  by (simp add: outer_def)

lemma snapshot_phase_outer:
  "outer (state_of (snapshot_phase env p vol st)) = outer (st\<lparr>count_total := count_total st + 1\<rparr>)"
  by (rule view_create_fields(1)) (rule snapshot_phase_view)

text \<open>What processing one volume does to the variables of the run, whatever happens.\<close>

lemma process_volume_facts:
  assumes "process_volume env cfg p vol st = Some res"
  shows "outer (state_of res) = outer (st\<lparr>count_total := count_total st + 1\<rparr>)"
    and "\<exists>ext. trace (state_of res) = trace st @ ext
           \<and> (\<forall>s\<in>set (delete_requests ext). candidate p s)"
    and "total_deletes st \<le> total_deletes (state_of res)"
proof -
  have "outer (state_of res) = outer (st\<lparr>count_total := count_total st + 1\<rparr>)
    \<and> (\<exists>ext. trace (state_of res) = trace st @ ext
           \<and> (\<forall>s\<in>set (delete_requests ext). candidate p s))
    \<and> total_deletes st \<le> total_deletes (state_of res)"
    using process_volume_SomeE[OF assms]
  proof (elim disjE exE conjE)
    fix e st1
    assume a: "snapshot_phase env p vol st = Raised e st1" "res = Raised e st1"
    from snapshot_phase_outer[of env p vol st]
    have "outer (state_of res) = outer (st\<lparr>count_total := count_total st + 1\<rparr>)"
      unfolding a by simp
    moreover from snapshot_phase_quiet[of env p vol st]
    have "\<exists>ext. trace (state_of res) = trace st @ ext \<and> (\<forall>s\<in>set (delete_requests ext). candidate p s)"
      unfolding a by auto
    moreover from snapshot_phase_frame(7)[of env p vol st]
    have "total_deletes st \<le> total_deletes (state_of res)"
      unfolding a by simp
    ultimately show ?thesis by blast
  next
    fix tgs d st1 st2
    assume a: "snapshot_phase env p vol st = Return (tgs, d) st1"
      "copy_phase env cfg d tgs st1 = Some st2" "res = prune_phase env cfg p vol st2"
    from snapshot_phase_outer[of env p vol st]
    have o1: "outer st1 = outer (st\<lparr>count_total := count_total st + 1\<rparr>)"
      unfolding a by simp
    from snapshot_phase_quiet[of env p vol st] obtain x1 where
      x1: "trace st1 = trace st @ x1" "delete_requests x1 = []"
      unfolding a by auto
    from snapshot_phase_frame(7)[of env p vol st] have t1: "total_deletes st1 = total_deletes st"
      unfolding a by simp
    note v2 = view_copy_fields[OF copy_phase_facts(1)[OF a(2)]]
    from copy_phase_quiet[OF a(2)] obtain x2 where
      x2: "trace st2 = trace st1 @ x2" "delete_requests x2 = []"
      by blast
    from prune_phase_general[of env cfg p vol st2] obtain x3 where
      x3: "trace (state_of res) = trace st2 @ x3"
          "set (delete_requests x3) \<subseteq> set (candidates p vol st2)"
          "view_prune (state_of res) = view_prune st2"
          "total_deletes st2 \<le> total_deletes (state_of res)"
      unfolding a(3) by blast
    have "outer (state_of res) = outer (st\<lparr>count_total := count_total st + 1\<rparr>)"
      using view_prune_fields(1)[OF x3(3)] v2(1) o1 by simp
    moreover have "trace (state_of res) = trace st @ (x1 @ x2 @ x3)"
      using x1(1) x2(1) x3(1) by simp
    moreover have "\<forall>s\<in>set (delete_requests (x1 @ x2 @ x3)). candidate p s"
      using x1(2) x2(2) x3(2) by (auto simp: candidates_def)
    moreover have "total_deletes st \<le> total_deletes (state_of res)"
      using x3(4) v2(3) t1 by simp
    ultimately show ?thesis by blast
  qed
  then show "outer (state_of res) = outer (st\<lparr>count_total := count_total st + 1\<rparr>)"
    and "\<exists>ext. trace (state_of res) = trace st @ ext
           \<and> (\<forall>s\<in>set (delete_requests ext). candidate p s)"
    and "total_deletes st \<le> total_deletes (state_of res)"
    by blast+
qed

lemma run_volume_SomeE:
  assumes "run_volume env cfg p vol st = Some st'"
  shows "(\<exists>e st1. process_volume env cfg p vol st = Some (Raised e st1) \<and> st' = volume_failed vol e st1)
       \<or> (\<exists>st1. process_volume env cfg p vol st = Some (Return () st1)
              \<and> st' = st1\<lparr>count_success := count_success st1 + 1\<rparr>)"
  using assms by (auto simp: run_volume_def split: result.splits option.splits)

lemma volume_failed_simps [simp]:
  "trace (volume_failed vol e st)
     = trace st @ [PrintError e, Traceback e, LogError (''Error in processing volume with id: '' @ vol)]"
  "message (volume_failed vol e st) = message st"
  "errmsg (volume_failed vol e st) = errmsg st @ ''Error in processing volume with id: '' @ vol"
  "total_creates (volume_failed vol e st) = total_creates st"
  "total_copies (volume_failed vol e st) = total_copies st"
  "total_deletes (volume_failed vol e st) = total_deletes st"
  "count_errors (volume_failed vol e st) = count_errors st + 1"
  "count_success (volume_failed vol e st) = count_success st"
  "count_total (volume_failed vol e st) = count_total st"
  "current_snap (volume_failed vol e st) = current_snap st"
  "dest_conn (volume_failed vol e st) = dest_conn st"
  "src_region (volume_failed vol e st) = src_region st"
  "dest_region (volume_failed vol e st) = dest_region st"
  "ticks (volume_failed vol e st) = ticks st"
  by (simp_all add: volume_failed_def Let_def)

text \<open>Every volume is counted once, as a success or as an error; an error is printed and
  logged with the volume, and it does not leave the loop body.\<close>

lemma run_volume_facts:
  assumes "run_volume env cfg p vol st = Some st'"
  shows "message st' = message st \<and> count_total st' = count_total st + 1
     \<and> (count_success st' = count_success st + 1 \<and> count_errors st' = count_errors st
          \<and> errmsg st' = errmsg st
          \<and> (\<exists>st1. process_volume env cfg p vol st = Some (Return () st1))
        \<or> count_success st' = count_success st \<and> count_errors st' = count_errors st + 1
          \<and> errmsg st' = errmsg st @ ''Error in processing volume with id: '' @ vol
          \<and> (\<exists>e st1. process_volume env cfg p vol st = Some (Raised e st1)
                \<and> trace st' = trace st1 @ [PrintError e, Traceback e,
                                     LogError (''Error in processing volume with id: '' @ vol)]))"
    and "\<exists>ext. trace st' = trace st @ ext \<and> (\<forall>s\<in>set (delete_requests ext). candidate p s)"
    and "total_deletes st \<le> total_deletes st'"
proof -
  have "(message st' = message st \<and> count_total st' = count_total st + 1
     \<and> (count_success st' = count_success st + 1 \<and> count_errors st' = count_errors st
          \<and> errmsg st' = errmsg st
          \<and> (\<exists>st1. process_volume env cfg p vol st = Some (Return () st1))
        \<or> count_success st' = count_success st \<and> count_errors st' = count_errors st + 1
          \<and> errmsg st' = errmsg st @ ''Error in processing volume with id: '' @ vol
          \<and> (\<exists>e st1. process_volume env cfg p vol st = Some (Raised e st1)
                \<and> trace st' = trace st1 @ [PrintError e, Traceback e,
                                     LogError (''Error in processing volume with id: '' @ vol)])))
    \<and> (\<exists>ext. trace st' = trace st @ ext \<and> (\<forall>s\<in>set (delete_requests ext). candidate p s))
    \<and> total_deletes st \<le> total_deletes st'"
    using run_volume_SomeE[OF assms]
  proof (elim disjE exE conjE)
    fix e st1
    assume a: "process_volume env cfg p vol st = Some (Raised e st1)" "st' = volume_failed vol e st1"
    note o = outer_fields[OF process_volume_facts(1)[OF a(1)], simplified]
    from process_volume_facts(2)[OF a(1)] obtain ext where
      ext: "trace st1 = trace st @ ext" "\<forall>s\<in>set (delete_requests ext). candidate p s"
      by auto
    let ?x = "[PrintError e, Traceback e, LogError (''Error in processing volume with id: '' @ vol)]"
    have "trace st' = trace st @ (ext @ ?x)"
      unfolding a(2) using ext(1) by simp
    moreover have "\<forall>s\<in>set (delete_requests (ext @ ?x)). candidate p s"
      using ext(2) by simp
    moreover have "total_deletes st \<le> total_deletes st'"
      unfolding a(2) using process_volume_facts(3)[OF a(1)] by simp
    moreover have "message st' = message st" "count_total st' = count_total st + 1"
      "count_success st' = count_success st" "count_errors st' = count_errors st + 1"
      "errmsg st' = errmsg st @ ''Error in processing volume with id: '' @ vol"
      "trace st' = trace st1 @ ?x"
      unfolding a(2) using o by simp_all
    ultimately show ?thesis using a(1) by blast
  next
    fix st1
    assume a: "process_volume env cfg p vol st = Some (Return () st1)"
      "st' = st1\<lparr>count_success := count_success st1 + 1\<rparr>"
    note o = outer_fields[OF process_volume_facts(1)[OF a(1)], simplified]
    from process_volume_facts(2)[OF a(1)] obtain ext where
      ext: "trace st1 = trace st @ ext" "\<forall>s\<in>set (delete_requests ext). candidate p s"
      by auto
    have "trace st' = trace st @ ext"
      unfolding a(2) using ext(1) by simp
    moreover have "total_deletes st \<le> total_deletes st'"
      unfolding a(2) using process_volume_facts(3)[OF a(1)] by simp
    moreover have "message st' = message st" "count_total st' = count_total st + 1"
      "count_success st' = count_success st + 1" "count_errors st' = count_errors st"
      "errmsg st' = errmsg st"
      unfolding a(2) using o by simp_all
    ultimately show ?thesis using a(1) ext(2) by blast
  qed
  then show "message st' = message st \<and> count_total st' = count_total st + 1
     \<and> (count_success st' = count_success st + 1 \<and> count_errors st' = count_errors st
          \<and> errmsg st' = errmsg st
          \<and> (\<exists>st1. process_volume env cfg p vol st = Some (Return () st1))
        \<or> count_success st' = count_success st \<and> count_errors st' = count_errors st + 1
          \<and> errmsg st' = errmsg st @ ''Error in processing volume with id: '' @ vol
          \<and> (\<exists>e st1. process_volume env cfg p vol st = Some (Raised e st1)
                \<and> trace st' = trace st1 @ [PrintError e, Traceback e,
                                     LogError (''Error in processing volume with id: '' @ vol)]))"
    and "\<exists>ext. trace st' = trace st @ ext \<and> (\<forall>s\<in>set (delete_requests ext). candidate p s)"
    and "total_deletes st \<le> total_deletes st'"
    by blast+
qed

section \<open>A run without a destination region\<close>

lemma run_volume_no_region:
  assumes "\<not> truthy (copy_region_name cfg)"
  shows "run_volume env cfg p vol st =
     Some (case snapshot_phase env p vol st of
             Raised e st1 \<Rightarrow> volume_failed vol e st1
           | Return x st1 \<Rightarrow>
               (case prune_phase env cfg p vol st1 of
                  Raised e st3 \<Rightarrow> volume_failed vol e st3
                | Return u st3 \<Rightarrow> st3\<lparr>count_success := count_success st3 + 1\<rparr>))"
  using assms
  by (simp add: run_volume_def process_volume_def copy_phase_none split: result.splits prod.splits)

lemma run_volume_unbound:
  assumes "\<not> truthy (copy_region_name cfg)" and "\<not> dest_conn st"
  shows "\<exists>st' ext. run_volume env cfg p vol st = Some st' \<and> \<not> dest_conn st'
           \<and> total_deletes st' = total_deletes st
           \<and> trace st' = trace st @ ext \<and> length (delete_requests ext) \<le> 1"
proof (cases "snapshot_phase env p vol st")
  case (Raised e st1)
  let ?x = "[PrintError e, Traceback e, LogError (''Error in processing volume with id: '' @ vol)]"
  have rv: "run_volume env cfg p vol st = Some (volume_failed vol e st1)"
    unfolding run_volume_no_region[OF assms(1)] Raised by simp
  from snapshot_phase_quiet[of env p vol st] obtain x1 where
    x1: "trace st1 = trace st @ x1" "delete_requests x1 = []"
    unfolding Raised by auto
  have "\<not> dest_conn (volume_failed vol e st1)"
    using snapshot_phase_frame(8)[of env p vol st] assms(2) unfolding Raised by simp
  moreover have "total_deletes (volume_failed vol e st1) = total_deletes st"
    using snapshot_phase_frame(7)[of env p vol st] unfolding Raised by simp
  moreover have "trace (volume_failed vol e st1) = trace st @ (x1 @ ?x)"
    using x1(1) by simp
  moreover have "length (delete_requests (x1 @ ?x)) \<le> 1"
    using x1(2) by simp
  ultimately show ?thesis using rv by blast
next
  case (Return x st1)
  from snapshot_phase_quiet[of env p vol st] obtain x1 where
    x1: "trace st1 = trace st @ x1" "delete_requests x1 = []"
    unfolding Return by auto
  have d1: "\<not> dest_conn st1"
    using snapshot_phase_frame(8)[of env p vol st] assms(2) unfolding Return by simp
  have t1: "total_deletes st1 = total_deletes st"
    using snapshot_phase_frame(7)[of env p vol st] unfolding Return by simp
  let ?pr = "prune_phase env cfg p vol st1"
  from prune_phase_unbound[OF d1, of env cfg p vol] obtain x2 where
    x2: "trace (state_of ?pr) = trace st1 @ x2" "length (delete_requests x2) \<le> 1"
        "total_deletes (state_of ?pr) = total_deletes st1"
    by blast
  from prune_phase_general[of env cfg p vol st1]
  have "view_prune (state_of ?pr) = view_prune st1"
    by blast
  from view_prune_fields(5)[OF this] d1 have d2: "\<not> dest_conn (state_of ?pr)"
    by simp
  show ?thesis
  proof (cases ?pr)
    case (Raised e st3)
    let ?x = "[PrintError e, Traceback e, LogError (''Error in processing volume with id: '' @ vol)]"
    have rv: "run_volume env cfg p vol st = Some (volume_failed vol e st3)"
      using \<open>snapshot_phase env p vol st = Return x st1\<close> Raised
      by (simp add: run_volume_no_region[OF assms(1)])
    have "\<not> dest_conn (volume_failed vol e st3)"
      using d2 unfolding Raised by simp
    moreover have "total_deletes (volume_failed vol e st3) = total_deletes st"
      using x2(3) t1 unfolding Raised by simp
    moreover have "trace (volume_failed vol e st3) = trace st @ (x1 @ x2 @ ?x)"
      using x1(1) x2(1) unfolding Raised by simp
    moreover have "length (delete_requests (x1 @ x2 @ ?x)) \<le> 1"
      using x1(2) x2(2) by simp
    ultimately show ?thesis using rv by blast
  next
    case (Return u st3)
    let ?st' = "st3\<lparr>count_success := count_success st3 + 1\<rparr>"
    have rv: "run_volume env cfg p vol st = Some ?st'"
      using \<open>snapshot_phase env p vol st = Return x st1\<close> Return
      by (simp add: run_volume_no_region[OF assms(1)])
    have "\<not> dest_conn ?st'"
      using d2 unfolding Return by simp
    moreover have "total_deletes ?st' = total_deletes st"
      using x2(3) t1 unfolding Return by simp
    moreover have "trace ?st' = trace st @ (x1 @ x2)"
      using x1(1) x2(1) unfolding Return by simp
    moreover have "length (delete_requests (x1 @ x2)) \<le> 1"
      using x1(2) x2(2) by simp
    ultimately show ?thesis using rv by blast
  qed
qed

lemma volume_loop_unbound:
  assumes "\<not> truthy (copy_region_name cfg)"
  shows "\<not> dest_conn st \<Longrightarrow>
         \<exists>st' ext. volume_loop env cfg p vols st = Some st' \<and> \<not> dest_conn st'
           \<and> total_deletes st' = total_deletes st
           \<and> trace st' = trace st @ ext \<and> length (delete_requests ext) \<le> length vols"
proof (induction vols arbitrary: st)
  case Nil
  then show ?case by simp
next
  case (Cons vol vols)
  from run_volume_unbound[OF assms Cons.prems, of env p vol] obtain st1 x1 where
    a: "run_volume env cfg p vol st = Some st1" "\<not> dest_conn st1"
       "total_deletes st1 = total_deletes st" "trace st1 = trace st @ x1"
       "length (delete_requests x1) \<le> 1"
    by blast
  from Cons.IH[OF a(2)] obtain st' x2 where
    b: "volume_loop env cfg p vols st1 = Some st'" "\<not> dest_conn st'"
       "total_deletes st' = total_deletes st1" "trace st' = trace st1 @ x2"
       "length (delete_requests x2) \<le> length vols"
    by blast
  have "volume_loop env cfg p (vol # vols) st = Some st'"
    using a(1) b(1) by simp
  moreover have "total_deletes st' = total_deletes st"
    using a(3) b(3) by simp
  moreover have "trace st' = trace st @ (x1 @ x2)"
    using a(4) b(4) by simp
  moreover have "length (delete_requests (x1 @ x2)) \<le> length (vol # vols)"
    using a(5) b(5) by simp
  ultimately show ?case using b(2) by blast
qed

lemma run_volume_unbound_first:
  assumes "\<not> truthy (copy_region_name cfg)" and "\<not> dest_conn st" and "0 \<le> keep_of cfg p"
    and "snapshot_phase env p vol st = Return x st1"
    and "keep_of cfg p < int (length (candidates p vol st1))"
    and "\<And>tr. \<not> rejects env tr (GetAllSnapshots vol)"
    and "\<And>tr s. \<not> rejects env tr (DeleteSnapshot s)"
  shows "\<exists>st' ext. run_volume env cfg p vol st = Some st' \<and> trace st' = trace st @ ext
           \<and> delete_requests ext = [hd (sort_key date_compare (candidates p vol st1))]
           \<and> src_region st'
                = filter (\<lambda>s. snap_id s \<noteq> snap_id (hd (sort_key date_compare (candidates p vol st1))))
                    (src_region st1)
           \<and> PrintError (NameError ''dest_conn'') \<in> set ext
           \<and> LogError (''Error in processing volume with id: '' @ vol) \<in> set ext
           \<and> count_errors st' = count_errors st + 1 \<and> count_success st' = count_success st"
proof -
  from snapshot_phase_quiet[of env p vol st] obtain x1 where
    x1: "trace st1 = trace st @ x1" "delete_requests x1 = []"
    unfolding assms(4) by auto
  have d1: "\<not> dest_conn st1"
    using snapshot_phase_frame(8)[of env p vol st] assms(2) unfolding assms(4) by simp
  have c1: "count_errors st1 = count_errors st" "count_success st1 = count_success st"
    using snapshot_phase_frame(3,4)[of env p vol st] unfolding assms(4) by simp_all
  let ?h = "hd (sort_key date_compare (candidates p vol st1))"
  from prune_phase_unbound_first[OF d1 assms(3) assms(5) assms(6) assms(7)] obtain st3 x2 where
    p: "prune_phase env cfg p vol st1 = Raised (NameError ''dest_conn'') st3"
       "trace st3 = trace st1 @ x2" "delete_requests x2 = [?h]"
       "src_region st3 = filter (\<lambda>s. snap_id s \<noteq> snap_id ?h) (src_region st1)"
       "view_prune st3 = view_prune st1"
    by blast
  note o = outer_fields[OF view_prune_fields(1)[OF p(5)]]
  let ?x = "[PrintError (NameError ''dest_conn''), Traceback (NameError ''dest_conn''),
             LogError (''Error in processing volume with id: '' @ vol)]"
  let ?st' = "volume_failed vol (NameError ''dest_conn'') st3"
  have rv: "run_volume env cfg p vol st = Some ?st'"
    by (simp add: run_volume_no_region[OF assms(1)] assms(4) p(1))
  have "trace ?st' = trace st @ (x1 @ x2 @ ?x)"
    using x1(1) p(2) by simp
  moreover have "delete_requests (x1 @ x2 @ ?x) = [?h]"
    using x1(2) p(3) by simp
  moreover have "src_region ?st' = filter (\<lambda>s. snap_id s \<noteq> snap_id ?h) (src_region st1)"
    using p(4) by simp
  moreover have "PrintError (NameError ''dest_conn'') \<in> set (x1 @ x2 @ ?x)"
    "LogError (''Error in processing volume with id: '' @ vol) \<in> set (x1 @ x2 @ ?x)"
    by simp_all
  moreover have "count_errors ?st' = count_errors st + 1" "count_success ?st' = count_success st"
    using o(3,4) c1 by simp_all
  ultimately show ?thesis using rv by blast
qed

section \<open>The loop over the volumes\<close>

lemma run_volume_terminates:
  assumes "\<And>sid n. \<exists>m\<ge>n. status_at env sid m = ''completed''"
  shows "\<exists>st'. run_volume env cfg p vol st = Some st'"
proof (cases "snapshot_phase env p vol st")
  case (Raised e st1)
  then show ?thesis by (simp add: run_volume_def process_volume_def)
next
  case (Return x st1)
  obtain tgs d where x: "x = (tgs, d)" by (cases x)
  from copy_phase_terminates[of st1 env cfg d tgs] assms obtain st2 where
    c: "copy_phase env cfg d tgs st1 = Some st2"
    by blast
  show ?thesis
    by (cases "prune_phase env cfg p vol st2")
       (simp_all add: run_volume_def process_volume_def Return x c)
qed

lemma volume_loop_terminates:
  assumes "\<And>sid n. \<exists>m\<ge>n. status_at env sid m = ''completed''"
  shows "\<exists>st'. volume_loop env cfg p vols st = Some st'"
proof (induction vols arbitrary: st)
  case Nil
  show ?case by simp
next
  case (Cons vol vols)
  from run_volume_terminates[OF assms, of cfg p vol st] obtain st1 where
    "run_volume env cfg p vol st = Some st1"
    by blast
  with Cons.IH[of st1] show ?case by simp
qed

lemma volume_loop_facts:
  "volume_loop env cfg p vols st = Some st' \<Longrightarrow>
     message st' = message st \<and> count_total st' = count_total st + length vols
     \<and> count_success st' + count_errors st' = count_success st + count_errors st + length vols
     \<and> count_success st \<le> count_success st' \<and> count_errors st \<le> count_errors st'
     \<and> total_deletes st \<le> total_deletes st'
     \<and> (\<exists>ext. trace st' = trace st @ ext \<and> (\<forall>s\<in>set (delete_requests ext). candidate p s))"
proof (induction vols arbitrary: st)
  case Nil
  then show ?case by simp
next
  case (Cons vol vols)
  from Cons.prems obtain st1 where
    r: "run_volume env cfg p vol st = Some st1" and l: "volume_loop env cfg p vols st1 = Some st'"
    by (auto split: option.splits)
  from run_volume_facts(1)[OF r] have
    a: "message st1 = message st" "count_total st1 = count_total st + 1"
       "count_success st1 + count_errors st1 = count_success st + count_errors st + 1"
       "count_success st \<le> count_success st1" "count_errors st \<le> count_errors st1"
    by auto
  from run_volume_facts(2)[OF r] obtain x1 where
    x1: "trace st1 = trace st @ x1" "\<forall>s\<in>set (delete_requests x1). candidate p s"
    by blast
  note t1 = run_volume_facts(3)[OF r]
  from Cons.IH[OF l] obtain x2 where
    b: "message st' = message st1" "count_total st' = count_total st1 + length vols"
       "count_success st' + count_errors st' = count_success st1 + count_errors st1 + length vols"
       "count_success st1 \<le> count_success st'" "count_errors st1 \<le> count_errors st'"
       "total_deletes st1 \<le> total_deletes st'"
       "trace st' = trace st1 @ x2" "\<forall>s\<in>set (delete_requests x2). candidate p s"
    by blast
  have "trace st' = trace st @ (x1 @ x2)"
    using x1(1) b(7) by simp
  moreover have "\<forall>s\<in>set (delete_requests (x1 @ x2)). candidate p s"
    using x1(2) b(8) by auto
  moreover have "message st' = message st" "count_total st' = count_total st + length (vol # vols)"
    "count_success st' + count_errors st' = count_success st + count_errors st + length (vol # vols)"
    "count_success st \<le> count_success st'" "count_errors st \<le> count_errors st'"
    "total_deletes st \<le> total_deletes st'"
    using a b(1-6) t1 by simp_all
  ultimately show ?case by blast
qed

section \<open>Before and after the loop\<close>

lemma provider_call_quiet:
  assumes "\<And>s. c \<noteq> DeleteSnapshot s"
  shows "\<exists>ext. trace (state_of (provider_call env c st)) = trace st @ ext \<and> delete_requests ext = []"
proof -
  have "trace (state_of (provider_call env c st)) = trace st @ [Call c]"
    by (simp add: provider_call_def)
  moreover have "delete_requests [Call c] = []"
    using assms by simp
  ultimately show ?thesis by blast
qed

lemma quiet_emit:
  assumes "\<exists>ext. trace (state_of r) = trace (emit e st) @ ext \<and> delete_requests ext = []"
    and "delete_requests [e] = []"
  shows "\<exists>ext. trace (state_of r) = trace st @ ext \<and> delete_requests ext = []"
proof -
  from assms(1) obtain ext where "trace (state_of r) = trace st @ ([e] @ ext)" "delete_requests ext = []"
    by auto
  moreover from this assms(2) have "delete_requests ([e] @ ext) = []"
    by (simp only: delete_requests_simps(10)) simp
  ultimately show ?thesis by blast
qed

lemma startup_quiet:
  "\<exists>ext. trace (state_of (startup env cfg p st)) = trace st @ ext \<and> delete_requests ext = []"
proof -
  define m where "m = ''Started taking '' @ period_str p @ '' snapshots at ''
                          @ strftime env ''%d-%m-%Y %H:%M:%S'' (trace st)"
  define st1 where "st1 = emit (LogInfo m) (st\<lparr>message := message st @ m @ nl @ nl\<rparr>)"
  define r1 where "r1 = (if truthy (iam_role_arn cfg)
               then provider_call env (AssumeRole (the (iam_role_arn cfg))) st1
               else Return () st1)"
  have t1: "trace st1 = trace st @ [LogInfo m]"
    by (simp add: st1_def)
  have "\<exists>ext. trace (state_of r1) = trace st1 @ ext \<and> delete_requests ext = []"
    unfolding r1_def using provider_call_quiet[of "AssumeRole (the (iam_role_arn cfg))" env st1]
    by simp
  then obtain x1 where x1: "trace (state_of r1) = trace st @ ([LogInfo m] @ x1)" "delete_requests x1 = []"
    unfolding t1 by auto
  have d1: "delete_requests ([LogInfo m] @ x1) = []"
    using x1(2) by simp
  have su: "startup env cfg p st =
     (case r1 of
           Raised e st2 \<Rightarrow> Raised e st2
         | Return u st2 \<Rightarrow>
             (let st3 = emit (Print ''Connecting to AWS'') st2;
                  st4 = (if truthy (arn cfg) then emit (Print ''Connecting to SNS'') st3 else st3);
                  st5 = emit (Print (''Finding volumes that match the requested tag ({ '' @ [CHR 0x22]
                                     @ ''tag:'' @ config_tag_name cfg @ [CHR 0x22] @ '': '' @ [CHR 0x22]
                                     @ config_tag_value cfg @ [CHR 0x22] @ '' })'')) st4
              in case provider_call env
                        (GetAllVolumes (''tag:'' @ config_tag_name cfg) (config_tag_value cfg)) st5 of
                   Raised e st6 \<Rightarrow> Raised e st6
                 | Return u st6 \<Rightarrow>
                     Return (filter (\<lambda>v. map_of (tags_of env v) (config_tag_name cfg)
                                         = Some (config_tag_value cfg)) (volumes env)) st6))"
    by (simp add: startup_def Let_def m_def st1_def r1_def)
  show ?thesis
  proof (cases r1)
    case (Raised e st2)
    then show ?thesis unfolding su using x1(1) d1 by auto
  next
    case (Return u st2)
    define f where "f = Print (''Finding volumes that match the requested tag ({ '' @ [CHR 0x22]
                                     @ ''tag:'' @ config_tag_name cfg @ [CHR 0x22] @ '': '' @ [CHR 0x22]
                                     @ config_tag_value cfg @ [CHR 0x22] @ '' })'')"
    define c where "c = GetAllVolumes (''tag:'' @ config_tag_name cfg) (config_tag_value cfg)"
    define x2 where "x2 = (if truthy (arn cfg)
                           then [Print ''Connecting to AWS'', Print ''Connecting to SNS'', f, Call c]
                           else [Print ''Connecting to AWS'', f, Call c])"
    have "trace (state_of (startup env cfg p st)) = trace st2 @ x2"
      unfolding su Return
      by (simp add: Let_def provider_call_def x2_def f_def c_def)
    then have "trace (state_of (startup env cfg p st)) = trace st @ (([LogInfo m] @ x1) @ x2)"
      using x1(1) Return by simp
    moreover have "delete_requests x2 = []"
      by (simp add: x2_def f_def c_def)
    then have "delete_requests (([LogInfo m] @ x1) @ x2) = []"
      using d1 by (simp only: delete_requests_simps(10)) simp
    ultimately show ?thesis by blast
  qed
qed

text \<open>The report: the summary is printed first, whatever the loop has counted; only the
  notifications that follow can raise.\<close>

lemma print_summary_trace:
  "trace (print_summary env st)
     = trace st @ [Print (nl @ summary env st @ nl), Print (result_text env st)]"
  by (simp add: print_summary_def)

lemma sns_report_quiet:
  "\<exists>ext. trace (state_of (sns_report env a r st)) = trace st @ ext \<and> delete_requests ext = []"
  by (auto simp: sns_report_def provider_call_def split: result.splits)

lemma finish_facts:
  "\<exists>ext. trace (state_of (finish env cfg st))
           = trace st @ [Print (nl @ summary env st @ nl), Print (result_text env st)] @ ext
         \<and> delete_requests ext = []"
proof (cases "truthy (arn cfg)")
  case False
  then have "trace (state_of (finish env cfg st))
           = trace st @ [Print (nl @ summary env st @ nl), Print (result_text env st)]
               @ [LogInfo (result_text env st)]"
    by (simp add: finish_def Let_def print_summary_trace)
  moreover have "delete_requests [LogInfo (result_text env st)] = []"
    by simp
  ultimately show ?thesis by blast
next
  case True
  let ?r = "sns_report env (the (arn cfg)) (result_text env st) (print_summary env st)"
  from sns_report_quiet[of env "the (arn cfg)" "result_text env st" "print_summary env st"]
  obtain x where x: "trace (state_of ?r) = trace (print_summary env st) @ x" "delete_requests x = []"
    by blast
  show ?thesis
  proof (cases ?r)
    case (Raised e st2)
    have "finish env cfg st = Raised e st2"
      using True Raised by (simp add: finish_def Let_def)
    then have "trace (state_of (finish env cfg st))
           = trace st @ [Print (nl @ summary env st @ nl), Print (result_text env st)] @ x"
      using x(1) Raised by (simp add: print_summary_trace)
    with x(2) show ?thesis by blast
  next
    case (Return u st2)
    have "finish env cfg st = Return () (emit (LogInfo (result_text env st)) st2)"
      using True Return by (simp add: finish_def Let_def)
    then have "trace (state_of (finish env cfg st))
           = trace st @ [Print (nl @ summary env st @ nl), Print (result_text env st)]
               @ (x @ [LogInfo (result_text env st)])"
      using x(1) Return by (simp add: print_summary_trace)
    moreover have "delete_requests (x @ [LogInfo (result_text env st)]) = []"
      using x(2) by simp
    ultimately show ?thesis by blast
  qed
qed

section \<open>Retention selection\<close>






section \<open>Classification\<close>

lemma main_deletes:
  assumes "main argv env cfg src dst = Some out"
  shows "\<forall>s\<in>set (delete_requests (final_trace out)). \<exists>p. parse_argv argv = Inr p \<and> candidate p s"
proof (cases "parse_argv argv")
  case (Inl usage)
  with assms have "out = Quit None [Print usage]"
    by (simp add: main_def)
  then show ?thesis by simp
next
  case (Inr p)
  let ?s0 = "init_state src dst"
  from startup_quiet[of env cfg p ?s0] obtain x1 where
    x1: "trace (state_of (startup env cfg p ?s0)) = x1" "delete_requests x1 = []"
    by (auto simp: init_state_def)
  show ?thesis
  proof (cases "startup env cfg p ?s0")
    case (Raised e st1)
    with assms Inr have "out = Crashed e st1"
      by (simp add: main_def)
    then show ?thesis using x1 Raised by simp
  next
    case (Return vols st1)
    from assms Inr Return obtain st2 where
      l: "volume_loop env cfg p vols st1 = Some st2"
      and o: "out = (case finish env cfg st2 of Raised e st3 \<Rightarrow> Crashed e st3
                     | Return u st3 \<Rightarrow> Finished st3)"
      by (auto simp: main_def split: option.splits result.splits)
    from volume_loop_facts[OF l] obtain x2 where
      x2: "trace st2 = trace st1 @ x2" "\<forall>s\<in>set (delete_requests x2). candidate p s"
      by blast
    from finish_facts[of env cfg st2] obtain x3 where
      x3: "trace (state_of (finish env cfg st2))
             = trace st2 @ [Print (nl @ summary env st2 @ nl), Print (result_text env st2)] @ x3"
          "delete_requests x3 = []"
      by blast
    have "final_trace out = trace (state_of (finish env cfg st2))"
      unfolding o by (cases "finish env cfg st2") simp_all
    then have "final_trace out
                 = x1 @ x2 @ [Print (nl @ summary env st2 @ nl), Print (result_text env st2)] @ x3"
      using x3(1) x2(1) x1(1) Return by simp
    then have "delete_requests (final_trace out) = delete_requests x2"
      using x1(2) x3(2) by simp
    with x2(2) Inr show ?thesis by simp
  qed
qed

text \<open>
  Claim C4. For the active period \<open>p\<close> the classification loop (lines 227-236) puts on the
  deletelist exactly the snapshots whose description starts with the marker of \<open>p\<close>, in the
  order of the listing, and logs a line for each of the others. So the description
  \<^verbatim>\<open>day_snapshot_extra text\<close> is a candidate of the period \<^verbatim>\<open>day\<close> and of no other, and
  \<^verbatim>\<open>daily_snapshot\<close> is a candidate of no period and is logged as skipped. Every snapshot that
  the volume loop, and the script as a whole, asks the provider to delete has a description
  that starts with the marker of the active period.
\<close>

theorem classification_exact_prefix:
  "fst (classify p snaps)
     = filter (\<lambda>s. startswith (description s) (period_str p @ ''_snapshot'')) snaps
   \<and> snd (classify p snaps)
       = map (\<lambda>s. LogInfo (''     Skipping, not added to deletelist: '' @ description s))
           (filter (\<lambda>s. \<not> startswith (description s) (period_str p @ ''_snapshot'')) snaps)
   \<and> (description s = ''day_snapshot_extra text'' \<longrightarrow>
         (fst (classify p [s]) = [s] \<longleftrightarrow> p = Day))
   \<and> (description s = ''daily_snapshot'' \<longrightarrow>
         classify p [s] = ([], [LogInfo ''     Skipping, not added to deletelist: daily_snapshot'']))
   \<and> (\<forall>st'. volume_loop env cfg p vols st = Some st' \<longrightarrow>
         (\<forall>x\<in>set (delete_requests (new_events st st')).
            startswith (description x) (period_str p @ ''_snapshot'')))
   \<and> (\<forall>out. main argv env cfg src dst = Some out \<longrightarrow>
         (\<forall>x\<in>set (delete_requests (final_trace out)).
            \<exists>q. parse_argv argv = Inr q
                \<and> startswith (description x) (period_str q @ ''_snapshot'')))"
proof -
  have cd: "candidate p = (\<lambda>s. startswith (description s) (period_str p @ ''_snapshot''))"
    by (rule ext) (simp add: candidate_def)
  have c1: "fst (classify p snaps)
     = filter (\<lambda>s. startswith (description s) (period_str p @ ''_snapshot'')) snaps"
    using classify_fst[of p snaps] unfolding cd .
  have c2: "snd (classify p snaps)
       = map (\<lambda>s. LogInfo (''     Skipping, not added to deletelist: '' @ description s))
           (filter (\<lambda>s. \<not> startswith (description s) (period_str p @ ''_snapshot'')) snaps)"
    using classify_snd[of p snaps] unfolding cd .
  have c3: "description s = ''day_snapshot_extra text'' \<longrightarrow>
         (fst (classify p [s]) = [s] \<longleftrightarrow> p = Day)"
    by (cases p) (simp_all add: startswith_def)
  have c4: "description s = ''daily_snapshot'' \<longrightarrow>
         classify p [s] = ([], [LogInfo ''     Skipping, not added to deletelist: daily_snapshot''])"
    by (cases p) (simp_all add: startswith_def)
  have c5: "\<forall>st'. volume_loop env cfg p vols st = Some st' \<longrightarrow>
         (\<forall>x\<in>set (delete_requests (new_events st st')).
            startswith (description x) (period_str p @ ''_snapshot''))"
  proof (intro allI impI)
    fix st' assume l: "volume_loop env cfg p vols st = Some st'"
    from volume_loop_facts[OF l] obtain x where
      x: "trace st' = trace st @ x" "\<forall>s\<in>set (delete_requests x). candidate p s"
      by blast
    have "new_events st st' = x"
      using x(1) by (rule new_events_ext)
    with x(2) show "\<forall>x\<in>set (delete_requests (new_events st st')).
            startswith (description x) (period_str p @ ''_snapshot'')"
      by (simp add: candidate_def)
  qed
  have c6: "\<forall>out. main argv env cfg src dst = Some out \<longrightarrow>
         (\<forall>x\<in>set (delete_requests (final_trace out)).
            \<exists>q. parse_argv argv = Inr q
                \<and> startswith (description x) (period_str q @ ''_snapshot''))"
    using main_deletes[of argv env cfg src dst] by (simp add: candidate_def)
  show ?thesis
    using c1 c2 c3 c4 c5 c6 by (intro conjI)
qed

theorem classification_exact_prefix_witness:
  "classify Day [snapA\<lparr>description := ''day_snapshot_extra text''\<rparr>,
                 snapB\<lparr>description := ''daily_snapshot''\<rparr>,
                 snapC\<lparr>description := ''week_snapshot c''\<rparr>]
     = ([snapA\<lparr>description := ''day_snapshot_extra text''\<rparr>],
        [LogInfo ''     Skipping, not added to deletelist: daily_snapshot'',
         LogInfo ''     Skipping, not added to deletelist: week_snapshot c''])
   \<and> (\<exists>st'. volume_loop env0 cfg0 Day [''vol-1''] st_abc_bound = Some st'
         \<and> (\<forall>x\<in>set (delete_requests (new_events st_abc_bound st')).
               startswith (description x) ''day_snapshot''))"
proof -
  let ?l = "[snapA\<lparr>description := ''day_snapshot_extra text''\<rparr>,
             snapB\<lparr>description := ''daily_snapshot''\<rparr>,
             snapC\<lparr>description := ''week_snapshot c''\<rparr>]"
  note t = classification_exact_prefix[of Day ?l snapA env0 cfg0 "[''vol-1'']" st_abc_bound "[]" "[]" "[]"]
  have "fst (classify Day ?l) = [snapA\<lparr>description := ''day_snapshot_extra text''\<rparr>]"
    "snd (classify Day ?l)
       = [LogInfo ''     Skipping, not added to deletelist: daily_snapshot'',
          LogInfo ''     Skipping, not added to deletelist: week_snapshot c'']"
    using t by (simp_all add: startswith_def)
  then have a: "classify Day ?l
     = ([snapA\<lparr>description := ''day_snapshot_extra text''\<rparr>],
        [LogInfo ''     Skipping, not added to deletelist: daily_snapshot'',
         LogInfo ''     Skipping, not added to deletelist: week_snapshot c''])"
    by (simp add: prod_eq_iff)
  have "\<And>sid n. \<exists>m\<ge>n. status_at env0 sid m = ''completed''"
    by (auto simp: env0_def)
  from volume_loop_terminates[OF this, of cfg0 Day "[''vol-1'']" st_abc_bound] obtain st' where
    l: "volume_loop env0 cfg0 Day [''vol-1''] st_abc_bound = Some st'"
    by blast
  with t have "\<forall>x\<in>set (delete_requests (new_events st_abc_bound st')).
               startswith (description x) (period_str Day @ ''_snapshot'')"
    by blast
  then have "\<forall>x\<in>set (delete_requests (new_events st_abc_bound st')).
               startswith (description x) ''day_snapshot''"
    by simp
  with l a show ?thesis by blast
qed

section \<open>Command line\<close>

text \<open>
  Claim C6, amended. When the first positional argument is missing or is not one of
  \<^verbatim>\<open>day\<close>, \<^verbatim>\<open>week\<close>, \<^verbatim>\<open>month\<close>, the whole behaviour of the script is to print one of the
  two usage messages and to leave through \<^verbatim>\<open>quit()\<close>: no request is sent to the provider
  and nothing is logged (the log is only configured later). \<^verbatim>\<open>quit\<close> is called without an
  argument, so the exit is early and its status is 0.
\<close>

theorem usage_exit:
  assumes "length argv < 2 \<or> argv ! 1 \<notin> {''day'', ''week'', ''month''}"
  shows "\<exists>usage. main argv env cfg src dst = Some (Quit None [Print usage])
           \<and> usage \<in> {''Please add a positional argument: day, week or month.'',
                        ''Please use the parameter day, week or month''}
           \<and> map_option exit_status (main argv env cfg src dst) = Some 0"
  using assms by (auto simp add: parse_argv_def main_def)

theorem usage_exit_witness:
  "main [''makesnapshots.py'', ''year''] env0 cfg0 [] []
     = Some (Quit None [Print ''Please use the parameter day, week or month''])
   \<and> main [''makesnapshots.py''] env0 cfg0 [] []
     = Some (Quit None [Print ''Please add a positional argument: day, week or month.''])"
  using usage_exit [of "[''makesnapshots.py'', ''year'']" env0 cfg0 "[]" "[]"]
        usage_exit [of "[''makesnapshots.py'']" env0 cfg0 "[]" "[]"]
  by (simp add: parse_argv_def main_def)

text \<open>
  The claim as it is written asks for a non-zero status. With the argument \<^verbatim>\<open>year\<close> the
  script prints the usage message and exits with status 0.
\<close>

theorem usage_exit_status_zero:
  "main [''makesnapshots.py'', ''year''] env0 cfg0 [] []
     = Some (Quit None [Print ''Please use the parameter day, week or month''])
   \<and> exit_status (Quit None [Print ''Please use the parameter day, week or month'']) = 0
   \<and> \<not> (map_option exit_status (main [''makesnapshots.py'', ''year''] env0 cfg0 [] []) \<noteq> Some 0)"
  by (simp add: parse_argv_def main_def)

section \<open>Tag propagation\<close>

lemma add_tag_keeps_id: "add_tag env r k v st = (r1, res) \<Longrightarrow> snap_id r1 = snap_id r"
  by (auto simp: add_tag_def split: result.splits)

lemma set_resource_tags_idem_aux:
  "distinct (map fst tgs) \<Longrightarrow> set_resource_tags env r tgs st = (r1, Return () st1) \<Longrightarrow>
     (\<forall>(k, v) \<in> set tgs. map_of (snap_tags r1) k = Some v)
     \<and> (\<forall>k. k \<notin> fst ` set tgs \<longrightarrow> map_of (snap_tags r1) k = map_of (snap_tags r) k)"
proof (induction tgs arbitrary: r st)
  case Nil
  then show ?case by simp
next
  case (Cons a tgs)
  obtain k v where a: "a = (k, v)" by (cases a)
  show ?case
  proof (cases "map_of (snap_tags r) k = Some v")
    case True
    with Cons.prems a have run: "set_resource_tags env r tgs st = (r1, Return () st1)"
      by simp
    from Cons.IH[OF _ run] Cons.prems(1) a True show ?thesis
      by (auto simp: rev_image_eqI)
  next
    case False
    let ?st = "emit (Print (tag_message (snap_id r) k v)) st"
    obtain r' res where at: "add_tag env r k v ?st = (r', res)" by (cases "add_tag env r k v ?st")
    from Cons.prems(2) a False at obtain st' where res: "res = Return () st'"
      and run: "set_resource_tags env r' tgs st' = (r1, Return () st1)"
      by (cases res) (auto split: option.splits)
    from at res have r': "snap_tags r' = AList.update k v (snap_tags r)"
      by (auto simp: add_tag_def split: result.splits)
    from Cons.IH[OF _ run] Cons.prems(1) a r' show ?thesis
      by (auto simp: update_conv' rev_image_eqI)
  qed
qed

lemma set_resource_tags_noop:
  "\<forall>(k, v) \<in> set tgs. map_of (snap_tags r) k = Some v \<Longrightarrow> set_resource_tags env r tgs st = (r, Return () st)"
  by (induction tgs) auto

lemma tag_events_cong:
  "snap_id r' = snap_id r \<Longrightarrow> \<forall>k \<in> fst ` set tgs. map_of (snap_tags r') k = map_of (snap_tags r) k
    \<Longrightarrow> tag_events r' tgs = tag_events r tgs"
  by (induction tgs) auto

lemma set_resource_tags_trace:
  "distinct (map fst tgs) \<Longrightarrow> set_resource_tags env r tgs st = (r1, Return () st1) \<Longrightarrow>
     trace st1 = trace st @ tag_events r tgs"
proof (induction tgs arbitrary: r st)
  case Nil
  then show ?case by simp
next
  case (Cons a tgs)
  obtain k v where a: "a = (k, v)" by (cases a)
  show ?case
  proof (cases "map_of (snap_tags r) k = Some v")
    case True
    with Cons.prems a have run: "set_resource_tags env r tgs st = (r1, Return () st1)"
      by simp
    from Cons.IH[OF _ run] Cons.prems(1) a True show ?thesis
      by auto
  next
    case False
    let ?st = "emit (Print (tag_message (snap_id r) k v)) st"
    obtain r' res where at: "add_tag env r k v ?st = (r', res)" by (cases "add_tag env r k v ?st")
    from Cons.prems(2) a False at obtain st' where res: "res = Return () st'"
      and run: "set_resource_tags env r' tgs st' = (r1, Return () st1)"
      by (cases res) (auto split: option.splits)
    from at res have r': "snap_tags r' = AList.update k v (snap_tags r)" "snap_id r' = snap_id r"
      and tr: "trace st' = trace st @ [Print (tag_message (snap_id r) k v), Call (AddTag (snap_id r) k v)]"
      by (auto simp: add_tag_def provider_call_def emit_def split: result.splits if_splits)
    have "tag_events r' tgs = tag_events r tgs"
      using r' Cons.prems(1) a by (intro tag_events_cong) (auto simp: update_conv')
    with Cons.IH[OF _ run] Cons.prems(1) a tr False show ?thesis
      by auto
  qed
qed


text \<open>
  Claim C7. \<open>set_resource_tags\<close> sets a tag only when the resource lacks it or holds it
  with another value: for a tag map with distinct keys, a run in which no request is
  rejected adds to the trace exactly one \<^verbatim>\<open>print\<close> and one tagging request for each
  such tag, in the order of the map. Running it again with the same map on the resource
  and state it left behind changes nothing: no event is added, so no tagging request.
\<close>

theorem tags_idempotent:
  assumes "distinct (map fst tgs)" and "set_resource_tags env r tgs st = (r1, Return () st1)"
  shows "set_resource_tags env r1 tgs st1 = (r1, Return () st1)
     \<and> trace st1 = trace st @ tag_events r tgs"
  using set_resource_tags_noop set_resource_tags_idem_aux[OF assms] set_resource_tags_trace[OF assms]
  by blast

lemma tags_run0:
  "set_resource_tags env0 snapA tags0 (init_state [snapA] [])
     = (snapA\<lparr>snap_tags := tags0\<rparr>,
        Return ()
          ((init_state [snapA\<lparr>snap_tags := tags0\<rparr>] [])
             \<lparr>trace := [Print (tag_message ''snap-a'' ''Name'' ''web''),
                        Call (AddTag ''snap-a'' ''Name'' ''web''),
                        Print (tag_message ''snap-a'' ''env'' ''prod''),
                        Call (AddTag ''snap-a'' ''env'' ''prod'')]\<rparr>))"
  by (simp add: tags0_def snapA_def env0_def init_state_def add_tag_def provider_call_def emit_def)

theorem tags_idempotent_witness:
  "distinct (map fst tags0)
   \<and> set_resource_tags env0 (snapA\<lparr>snap_tags := tags0\<rparr>) tags0
        ((init_state [snapA\<lparr>snap_tags := tags0\<rparr>] [])
             \<lparr>trace := [Print (tag_message ''snap-a'' ''Name'' ''web''),
                        Call (AddTag ''snap-a'' ''Name'' ''web''),
                        Print (tag_message ''snap-a'' ''env'' ''prod''),
                        Call (AddTag ''snap-a'' ''env'' ''prod'')]\<rparr>)
     = (snapA\<lparr>snap_tags := tags0\<rparr>,
        Return ()
          ((init_state [snapA\<lparr>snap_tags := tags0\<rparr>] [])
             \<lparr>trace := [Print (tag_message ''snap-a'' ''Name'' ''web''),
                        Call (AddTag ''snap-a'' ''Name'' ''web''),
                        Print (tag_message ''snap-a'' ''env'' ''prod''),
                        Call (AddTag ''snap-a'' ''env'' ''prod'')]\<rparr>))"
proof -
  have d: "distinct (map fst tags0)"
    by (simp add: tags0_def)
  from tags_idempotent [OF d tags_run0, THEN conjunct1] d show ?thesis
    by (intro conjI)
qed

section \<open>The completion wait\<close>

lemma await_round:
  assumes "current_snap st = Some cs" and "status cs \<noteq> ''completed''"
    and "\<not> rejects env (trace st @ [Sleep 5]) (UpdateSnapshot (snap_id cs))"
  shows "await_completed env st =
     await_completed env
       (emit (Print (''     '' @ status_at env (snap_id cs) (ticks st)))
          ((emit (Call (UpdateSnapshot (snap_id cs))) (emit (Sleep 5) st))
             \<lparr>ticks := ticks st + 1,
               current_snap := Some (cs\<lparr>status := status_at env (snap_id cs) (ticks st)\<rparr>)\<rparr>))"
proof (cases rule: poll_once_cases[where env=env and st=st and cs=cs])
  case rejected
  with assms(3) show ?thesis by simp
next
  case accepted
  show ?thesis
    unfolding await_step[OF assms(1,2)] accepted(2) by simp
qed

lemma copy_step_diverges: "await_completed env st = None \<Longrightarrow> copy_step env cfg region d tgs st = None"
  by (simp add: copy_step_def)

text \<open>
  Claim C8. Let \<open>cs\<close> be the current snapshot when the wait of lines 196-201 starts. When its
  status is \<^verbatim>\<open>completed\<close> the wait returns at once. Otherwise one round sleeps five seconds,
  re-fetches the snapshot, stores and prints the status that the provider reports, and the
  wait starts again. Whatever the wait adds to the trace is such a sleep, such a re-fetch of
  \<open>cs\<close> or a print. The wait returns only in a state whose current snapshot is \<open>cs\<close> with the
  status \<^verbatim>\<open>completed\<close>, and a copy request of the copy step is sent only after the wait has
  returned so, for that snapshot. There is no bound on the number of rounds: when \<open>cs\<close> is not
  completed, no later refresh reports \<^verbatim>\<open>completed\<close> and the provider rejects no refresh, the
  wait does not terminate, and neither does the copy step. It does terminate when some later
  refresh reports \<^verbatim>\<open>completed\<close>.
\<close>

theorem completion_wait:
  assumes "current_snap st = Some cs"
  shows "(status cs = ''completed'' \<longrightarrow> await_completed env st = Some (Return () st))
    \<and> (status cs \<noteq> ''completed''
         \<and> \<not> rejects env (trace st @ [Sleep 5]) (UpdateSnapshot (snap_id cs)) \<longrightarrow>
        await_completed env st =
          await_completed env
            (emit (Print (''     '' @ status_at env (snap_id cs) (ticks st)))
               ((emit (Call (UpdateSnapshot (snap_id cs))) (emit (Sleep 5) st))
                  \<lparr>ticks := ticks st + 1,
                    current_snap := Some (cs\<lparr>status := status_at env (snap_id cs) (ticks st)\<rparr>)\<rparr>)))
    \<and> (\<forall>res. await_completed env st = Some res \<longrightarrow>
          extends (poll_event (snap_id cs)) st (state_of res))
    \<and> (\<forall>u st'. await_completed env st = Some (Return u st') \<longrightarrow>
          (\<exists>cs'. current_snap st' = Some cs' \<and> snap_id cs' = snap_id cs
                 \<and> status cs' = ''completed''))
    \<and> (\<forall>res r sid ds.
          copy_step env cfg region d tgs st = Some res
          \<and> Call (CopySnapshot r sid ds) \<in> set (new_events st (state_of res)) \<longrightarrow>
          sid = snap_id cs
          \<and> (\<exists>st1 cs'. await_completed env st = Some (Return () st1)
                \<and> current_snap st1 = Some cs' \<and> snap_id cs' = sid \<and> status cs' = ''completed''))
    \<and> (status cs \<noteq> ''completed''
         \<and> (\<forall>n\<ge>ticks st. status_at env (snap_id cs) n \<noteq> ''completed'')
         \<and> (\<forall>tr. \<not> rejects env tr (UpdateSnapshot (snap_id cs))) \<longrightarrow>
        await_completed env st = None \<and> copy_step env cfg region d tgs st = None)
    \<and> ((\<exists>m\<ge>ticks st. status_at env (snap_id cs) m = ''completed'') \<longrightarrow>
          (\<exists>res. await_completed env st = Some res))"
proof -
  have c1: "status cs = ''completed'' \<longrightarrow> await_completed env st = Some (Return () st)"
    using await_done[OF assms] by blast
  have c2: "status cs \<noteq> ''completed''
         \<and> \<not> rejects env (trace st @ [Sleep 5]) (UpdateSnapshot (snap_id cs)) \<longrightarrow>
        await_completed env st =
          await_completed env
            (emit (Print (''     '' @ status_at env (snap_id cs) (ticks st)))
               ((emit (Call (UpdateSnapshot (snap_id cs))) (emit (Sleep 5) st))
                  \<lparr>ticks := ticks st + 1,
                    current_snap := Some (cs\<lparr>status := status_at env (snap_id cs) (ticks st)\<rparr>)\<rparr>))"
    using await_round[OF assms] by blast
  have c3: "\<forall>res. await_completed env st = Some res \<longrightarrow>
          extends (poll_event (snap_id cs)) st (state_of res)"
    using await_poll_events[OF _ assms] by blast
  have c4: "\<forall>u st'. await_completed env st = Some (Return u st') \<longrightarrow>
          (\<exists>cs'. current_snap st' = Some cs' \<and> snap_id cs' = snap_id cs
                 \<and> status cs' = ''completed'')"
  proof (intro allI impI)
    fix u st' assume a: "await_completed env st = Some (Return u st')"
    from await_return[OF a] obtain cs' where cs': "current_snap st' = Some cs'" "status cs' = ''completed''"
      by blast
    from await_ids[OF a] cs'(1) assms have "snap_id cs' = snap_id cs"
      by simp
    with cs' show "\<exists>cs'. current_snap st' = Some cs' \<and> snap_id cs' = snap_id cs \<and> status cs' = ''completed''"
      by blast
  qed
  have c5: "\<forall>res r sid ds.
          copy_step env cfg region d tgs st = Some res
          \<and> Call (CopySnapshot r sid ds) \<in> set (new_events st (state_of res)) \<longrightarrow>
          sid = snap_id cs
          \<and> (\<exists>st1 cs'. await_completed env st = Some (Return () st1)
                \<and> current_snap st1 = Some cs' \<and> snap_id cs' = sid \<and> status cs' = ''completed'')"
  proof (intro allI impI, elim conjE)
    fix res r sid ds
    assume a: "copy_step env cfg region d tgs st = Some res"
      "Call (CopySnapshot r sid ds) \<in> set (new_events st (state_of res))"
    from copy_step_copy_request[OF a] obtain st1 cs' where
      b: "await_completed env st = Some (Return () st1)" "current_snap st1 = Some cs'"
         "status cs' = ''completed''" "sid = snap_id cs'"
         "map_option snap_id (current_snap st) = Some sid"
      by blast
    from b(5) assms have "sid = snap_id cs" by simp
    with b show "sid = snap_id cs
          \<and> (\<exists>st1 cs'. await_completed env st = Some (Return () st1)
                \<and> current_snap st1 = Some cs' \<and> snap_id cs' = sid \<and> status cs' = ''completed'')"
      by blast
  qed
  have c6: "status cs \<noteq> ''completed''
         \<and> (\<forall>n\<ge>ticks st. status_at env (snap_id cs) n \<noteq> ''completed'')
         \<and> (\<forall>tr. \<not> rejects env tr (UpdateSnapshot (snap_id cs))) \<longrightarrow>
        await_completed env st = None \<and> copy_step env cfg region d tgs st = None"
    using await_diverges[OF assms] copy_step_diverges by blast
  have c7: "(\<exists>m\<ge>ticks st. status_at env (snap_id cs) m = ''completed'') \<longrightarrow>
          (\<exists>res. await_completed env st = Some res)"
  proof
    assume "\<exists>m\<ge>ticks st. status_at env (snap_id cs) m = ''completed''"
    with assms have "\<And>c. current_snap st = Some c \<Longrightarrow> \<exists>m\<ge>ticks st. status_at env (snap_id c) m = ''completed''"
      by simp
    from await_terminates[OF this] show "\<exists>res. await_completed env st = Some res" .
  qed
  show ?thesis
    using c1 c2 c3 c4 c5 c6 c7 by (intro conjI)
qed

theorem completion_wait_witness:
  "current_snap st_pending = Some snapP
   \<and> await_completed env_pending st_pending = None
   \<and> copy_step env_pending cfg_copy ''us-east-1'' ''d'' [] st_pending = None
   \<and> (\<exists>res. await_completed env0 st_pending = Some res)"
proof -
  have h: "current_snap st_pending = Some snapP"
    by (simp add: st_pending_def)
  have p: "status snapP \<noteq> ''completed''
         \<and> (\<forall>n\<ge>ticks st_pending. status_at env_pending (snap_id snapP) n \<noteq> ''completed'')
         \<and> (\<forall>tr. \<not> rejects env_pending tr (UpdateSnapshot (snap_id snapP)))"
    by (simp add: snapP_def env_pending_def env0_def)
  have q: "\<exists>m\<ge>ticks st_pending. status_at env0 (snap_id snapP) m = ''completed''"
    by (auto simp add: env0_def)
  from completion_wait[OF h, of env_pending cfg_copy "''us-east-1''" "''d''" "[]"] p
  have "await_completed env_pending st_pending = None
        \<and> copy_step env_pending cfg_copy ''us-east-1'' ''d'' [] st_pending = None"
    by blast
  moreover from completion_wait[OF h, of env0 cfg_copy "''us-east-1''" "''d''" "[]"] q
  have "\<exists>res. await_completed env0 st_pending = Some res"
    by blast
  ultimately show ?thesis using h by blast
qed

section \<open>The deletion loop without a destination connection\<close>

lemma digit_char_values:
  "digit_char 0 = CHR ''0''" "digit_char (Suc 0) = CHR ''1''" "digit_char (Suc (Suc 0)) = CHR ''2''"
  "digit_char (Suc (Suc (Suc 0))) = CHR ''3''"
  by code_simp+

lemma snapshot_phase_abc:
  "candidates Day ''vol-1'' (state_of (snapshot_phase env0 Day ''vol-1'' st_abc))
     = [snapA, snapB, snapC,
        \<lparr>snap_id = ''snap-2'', volume_id = ''vol-1'',
          description = ''day_snapshot vol-1_day_T0 by snapshot script at T2'',
          start_time = ''T2'', status = ''pending'', snap_tags = [(''Name'', ''web'')]\<rparr>]"
  by (simp add: snapshot_phase_def get_resource_tags_def provider_call_def create_step_def
        create_snapshot_def add_tag_def emit_def make_description_def date_suffix_def
        env0_def st_abc_def init_state_def startswith_def candidates_def listed_def candidate_def
        snapA_def snapB_def snapC_def Let_def digit_char_values)

lemma snapshot_phase_abc_returns:
  "\<exists>x. snapshot_phase env0 Day ''vol-1'' st_abc
         = Return x (state_of (snapshot_phase env0 Day ''vol-1'' st_abc))"
  by (simp add: snapshot_phase_def get_resource_tags_def provider_call_def env0_def Let_def)

lemma sort_abc_new:
  "hd (sort_key date_compare
        [snapA, snapB, snapC,
         \<lparr>snap_id = ''snap-2'', volume_id = ''vol-1'',
           description = ''day_snapshot vol-1_day_T0 by snapshot script at T2'',
           start_time = ''T2'', status = ''pending'', snap_tags = [(''Name'', ''web'')]\<rparr>]) = snapB"
  by (simp add: date_compare_def snapA_def snapB_def snapC_def)

text \<open>
  Claim C9. Let no destination region be configured and let no destination connection be
  bound, as at the start of the run. Then the connection is still unbound after every volume
  and after the whole loop, the counter of deletions never grows, and every volume sends at
  most one deletion request. For a volume whose snapshot step went through, whose number
  of candidates exceeds the keep-count \<open>keep \<ge> 0\<close>, and whose listing and deletion requests
  the provider accepts, the loop deletes exactly the oldest candidate (the first of the
  sorted list), the name \<^verbatim>\<open>dest_conn\<close> is then not found, and the volume is printed, logged
  and counted as an error and not as a success.
\<close>

theorem unbound_destination:
  assumes "\<not> truthy (copy_region_name cfg)" and "\<not> dest_conn st"
  shows "(\<exists>st'. run_volume env cfg p vol st = Some st' \<and> \<not> dest_conn st'
            \<and> total_deletes st' = total_deletes st
            \<and> length (delete_requests (new_events st st')) \<le> 1
            \<and> (\<forall>x st1. 0 \<le> keep_of cfg p \<and> snapshot_phase env p vol st = Return x st1
                   \<and> keep_of cfg p < int (length (candidates p vol st1))
                   \<and> (\<forall>tr. \<not> rejects env tr (GetAllSnapshots vol))
                   \<and> (\<forall>tr s. \<not> rejects env tr (DeleteSnapshot s)) \<longrightarrow>
                 delete_requests (new_events st st')
                   = [hd (sort_key date_compare (candidates p vol st1))]
                 \<and> src_region st'
                     = filter (\<lambda>s. snap_id s
                                 \<noteq> snap_id (hd (sort_key date_compare (candidates p vol st1))))
                         (src_region st1)
                 \<and> PrintError (NameError ''dest_conn'') \<in> set (new_events st st')
                 \<and> LogError (''Error in processing volume with id: '' @ vol)
                     \<in> set (new_events st st')
                 \<and> count_errors st' = count_errors st + 1
                 \<and> count_success st' = count_success st))
    \<and> (\<exists>st'. volume_loop env cfg p vols st = Some st' \<and> \<not> dest_conn st'
            \<and> total_deletes st' = total_deletes st
            \<and> length (delete_requests (new_events st st')) \<le> length vols)"
proof -
  from run_volume_unbound[OF assms, of env p vol] obtain st' ext where
    a: "run_volume env cfg p vol st = Some st'" "\<not> dest_conn st'"
       "total_deletes st' = total_deletes st" "trace st' = trace st @ ext"
       "length (delete_requests ext) \<le> 1"
    by blast
  have ne: "new_events st st' = ext"
    using a(4) by (rule new_events_ext)
  have spec: "\<forall>x st1. 0 \<le> keep_of cfg p \<and> snapshot_phase env p vol st = Return x st1
                   \<and> keep_of cfg p < int (length (candidates p vol st1))
                   \<and> (\<forall>tr. \<not> rejects env tr (GetAllSnapshots vol))
                   \<and> (\<forall>tr s. \<not> rejects env tr (DeleteSnapshot s)) \<longrightarrow>
                 delete_requests (new_events st st')
                   = [hd (sort_key date_compare (candidates p vol st1))]
                 \<and> src_region st'
                     = filter (\<lambda>s. snap_id s
                                 \<noteq> snap_id (hd (sort_key date_compare (candidates p vol st1))))
                         (src_region st1)
                 \<and> PrintError (NameError ''dest_conn'') \<in> set (new_events st st')
                 \<and> LogError (''Error in processing volume with id: '' @ vol)
                     \<in> set (new_events st st')
                 \<and> count_errors st' = count_errors st + 1
                 \<and> count_success st' = count_success st"
  proof (intro allI impI, elim conjE)
    fix x st1
    assume h: "0 \<le> keep_of cfg p" "snapshot_phase env p vol st = Return x st1"
      "keep_of cfg p < int (length (candidates p vol st1))"
      "\<forall>tr. \<not> rejects env tr (GetAllSnapshots vol)"
      "\<forall>tr s. \<not> rejects env tr (DeleteSnapshot s)"
    from run_volume_unbound_first[OF assms h(1,2,3)] h(4,5) obtain st'' ext' where
      b: "run_volume env cfg p vol st = Some st''" "trace st'' = trace st @ ext'"
         "delete_requests ext' = [hd (sort_key date_compare (candidates p vol st1))]"
         "src_region st''
            = filter (\<lambda>s. snap_id s \<noteq> snap_id (hd (sort_key date_compare (candidates p vol st1))))
                (src_region st1)"
         "PrintError (NameError ''dest_conn'') \<in> set ext'"
         "LogError (''Error in processing volume with id: '' @ vol) \<in> set ext'"
         "count_errors st'' = count_errors st + 1" "count_success st'' = count_success st"
      by blast
    from a(1) b(1) have eq: "st'' = st'" by simp
    have "new_events st st' = ext'"
      using b(2) unfolding eq by (rule new_events_ext)
    with b(3-8) show "delete_requests (new_events st st')
                   = [hd (sort_key date_compare (candidates p vol st1))]
                 \<and> src_region st'
                     = filter (\<lambda>s. snap_id s
                                 \<noteq> snap_id (hd (sort_key date_compare (candidates p vol st1))))
                         (src_region st1)
                 \<and> PrintError (NameError ''dest_conn'') \<in> set (new_events st st')
                 \<and> LogError (''Error in processing volume with id: '' @ vol)
                     \<in> set (new_events st st')
                 \<and> count_errors st' = count_errors st + 1
                 \<and> count_success st' = count_success st"
      unfolding eq by simp
  qed
  have one: "\<exists>st'. run_volume env cfg p vol st = Some st' \<and> \<not> dest_conn st'
            \<and> total_deletes st' = total_deletes st
            \<and> length (delete_requests (new_events st st')) \<le> 1
            \<and> (\<forall>x st1. 0 \<le> keep_of cfg p \<and> snapshot_phase env p vol st = Return x st1
                   \<and> keep_of cfg p < int (length (candidates p vol st1))
                   \<and> (\<forall>tr. \<not> rejects env tr (GetAllSnapshots vol))
                   \<and> (\<forall>tr s. \<not> rejects env tr (DeleteSnapshot s)) \<longrightarrow>
                 delete_requests (new_events st st')
                   = [hd (sort_key date_compare (candidates p vol st1))]
                 \<and> src_region st'
                     = filter (\<lambda>s. snap_id s
                                 \<noteq> snap_id (hd (sort_key date_compare (candidates p vol st1))))
                         (src_region st1)
                 \<and> PrintError (NameError ''dest_conn'') \<in> set (new_events st st')
                 \<and> LogError (''Error in processing volume with id: '' @ vol)
                     \<in> set (new_events st st')
                 \<and> count_errors st' = count_errors st + 1
                 \<and> count_success st' = count_success st)"
    using a(1,2,3) a(5)[folded ne] spec by blast
  from volume_loop_unbound[OF assms, of env p vols] obtain st2 ext2 where
    c: "volume_loop env cfg p vols st = Some st2" "\<not> dest_conn st2"
       "total_deletes st2 = total_deletes st" "trace st2 = trace st @ ext2"
       "length (delete_requests ext2) \<le> length vols"
    by blast
  have "new_events st st2 = ext2"
    using c(4) by (rule new_events_ext)
  with c have all: "\<exists>st'. volume_loop env cfg p vols st = Some st' \<and> \<not> dest_conn st'
            \<and> total_deletes st' = total_deletes st
            \<and> length (delete_requests (new_events st st')) \<le> length vols"
    by simp
  from one all show ?thesis by (rule conjI)
qed

theorem unbound_destination_witness:
  "\<not> truthy (copy_region_name cfg0) \<and> \<not> dest_conn st_abc
   \<and> (\<exists>st'. run_volume env0 cfg0 Day ''vol-1'' st_abc = Some st'
          \<and> delete_requests (new_events st_abc st') = [snapB]
          \<and> PrintError (NameError ''dest_conn'') \<in> set (new_events st_abc st')
          \<and> total_deletes st' = 0 \<and> count_errors st' = 1 \<and> count_success st' = 0
          \<and> \<not> dest_conn st')"
proof -
  have h1: "\<not> truthy (copy_region_name cfg0)"
    by (simp add: cfg0_def)
  have h2: "\<not> dest_conn st_abc"
    by (simp add: st_abc_def init_state_def)
  let ?st1 = "state_of (snapshot_phase env0 Day ''vol-1'' st_abc)"
  from snapshot_phase_abc_returns obtain x where
    sp: "snapshot_phase env0 Day ''vol-1'' st_abc = Return x ?st1"
    by blast
  have h3: "0 \<le> keep_of cfg0 Day \<and> snapshot_phase env0 Day ''vol-1'' st_abc = Return x ?st1
      \<and> keep_of cfg0 Day < int (length (candidates Day ''vol-1'' ?st1))
      \<and> (\<forall>tr. \<not> rejects env0 tr (GetAllSnapshots ''vol-1''))
      \<and> (\<forall>tr s. \<not> rejects env0 tr (DeleteSnapshot s))"
  proof (intro conjI)
    show "0 \<le> keep_of cfg0 Day"
      by (simp add: cfg0_def)
    show "snapshot_phase env0 Day ''vol-1'' st_abc = Return x ?st1"
      by (rule sp)
    have "length (candidates Day ''vol-1'' ?st1) = 4"
      by (simp only: snapshot_phase_abc) simp
    then show "keep_of cfg0 Day < int (length (candidates Day ''vol-1'' ?st1))"
      by (simp add: cfg0_def)
    show "\<forall>tr. \<not> rejects env0 tr (GetAllSnapshots ''vol-1'')"
      by (simp add: env0_def)
    show "\<forall>tr s. \<not> rejects env0 tr (DeleteSnapshot s)"
      by (simp add: env0_def)
  qed
  have z: "total_deletes st_abc = 0" "count_errors st_abc = 0" "count_success st_abc = 0"
    by (simp_all add: st_abc_def init_state_def)
  from unbound_destination[OF h1 h2, of env0 Day "''vol-1''" "[]"] obtain st' where
    a: "run_volume env0 cfg0 Day ''vol-1'' st_abc = Some st'" "\<not> dest_conn st'"
       "total_deletes st' = total_deletes st_abc"
       "\<forall>x st1. 0 \<le> keep_of cfg0 Day \<and> snapshot_phase env0 Day ''vol-1'' st_abc = Return x st1
                   \<and> keep_of cfg0 Day < int (length (candidates Day ''vol-1'' st1))
                   \<and> (\<forall>tr. \<not> rejects env0 tr (GetAllSnapshots ''vol-1''))
                   \<and> (\<forall>tr s. \<not> rejects env0 tr (DeleteSnapshot s)) \<longrightarrow>
                 delete_requests (new_events st_abc st')
                   = [hd (sort_key date_compare (candidates Day ''vol-1'' st1))]
                 \<and> src_region st'
                     = filter (\<lambda>s. snap_id s
                                 \<noteq> snap_id (hd (sort_key date_compare (candidates Day ''vol-1'' st1))))
                         (src_region st1)
                 \<and> PrintError (NameError ''dest_conn'') \<in> set (new_events st_abc st')
                 \<and> LogError (''Error in processing volume with id: '' @ ''vol-1'')
                     \<in> set (new_events st_abc st')
                 \<and> count_errors st' = count_errors st_abc + 1
                 \<and> count_success st' = count_success st_abc"
    by blast
  from a(4) h3 have b: "delete_requests (new_events st_abc st')
                   = [hd (sort_key date_compare (candidates Day ''vol-1'' ?st1))]"
      "PrintError (NameError ''dest_conn'') \<in> set (new_events st_abc st')"
      "count_errors st' = count_errors st_abc + 1" "count_success st' = count_success st_abc"
    by blast+
  have "hd (sort_key date_compare (candidates Day ''vol-1'' ?st1)) = snapB"
    by (simp only: snapshot_phase_abc sort_abc_new)
  with a(1,2,3) b z h1 h2 show ?thesis
    by simp
qed


end
